theory Spec2Isabelle
  imports Complex_Main "HOL-Library.Sublist" "HOL-Library.AList"
begin

section \<open>FileContentStorage: a directory-backed content store\<close>

text \<open>
  The theory embeds \<^verbatim>\<open>src/examples/implementation/FileContentStorage.ts\<close>.
  The class keeps no state of its own besides \<^verbatim>\<open>contentPath\<close>; everything it does
  is a sequence of calls to \<^verbatim>\<open>path\<close>, \<^verbatim>\<open>fs-extra\<close>, \<^verbatim>\<open>glob-promise\<close> and
  \<^verbatim>\<open>promisepipe\<close>. The file system is therefore an explicit state, the library calls
  are functions on it, and each method of the class is a function that threads the
  state through the same calls in the same order.
\<close>

subsection \<open>Paths (Node's posix \<^verbatim>\<open>path\<close> module)\<close>

text \<open>A location in the file system: the names from \<^verbatim>\<open>/\<close> downwards.\<close>

type_synonym path = "string list"

text \<open>
  What \<^verbatim>\<open>path.join\<close> returns, read as the operating system reads it: the names of
  the normalized string and whether it ends with a separator.
\<close>

record jpath =
  segs :: path
  trailing :: bool

fun splitOn :: "char \<Rightarrow> string \<Rightarrow> string list" where
  "splitOn c [] = [[]]"
| "splitOn c (x # xs) =
     (if x = c then [] # splitOn c xs
      else (case splitOn c xs of [] \<Rightarrow> [[x]] | y # ys \<Rightarrow> (x # y) # ys))"

fun joinWith :: "string \<Rightarrow> string list \<Rightarrow> string" where
  "joinWith s [] = []"
| "joinWith s [x] = x"
| "joinWith s (x # y # ys) = x @ s @ joinWith s (y # ys)"

text \<open>
  \<^verbatim>\<open>normalizeString(path, allowAboveRoot = false)\<close>: empty names and \<^verbatim>\<open>.\<close> are
  skipped, \<^verbatim>\<open>..\<close> drops the name before it and is itself dropped at the root. The
  accumulator holds the names kept so far, last one first. \<^verbatim>\<open>contentPath\<close> is
  ``the absolute path to the directory where the content should be stored''
  (constructor), so every path the class joins is absolute.
\<close>

fun normalizeString :: "path \<Rightarrow> string list \<Rightarrow> path" where
  "normalizeString acc [] = rev acc"
| "normalizeString acc (s # ss) =
     (if s = [] \<or> s = ''.'' then normalizeString acc ss
      else if s = ''..'' then normalizeString (tl acc) ss
      else normalizeString (s # acc) ss)"

definition normalize :: "string \<Rightarrow> jpath" where
  "normalize p =
     \<lparr>segs = normalizeString [] (splitOn (CHR ''/'') p),
      trailing = (p \<noteq> [] \<and> last p = CHR ''/'')\<rparr>"

text \<open>\<^verbatim>\<open>path.join\<close>: the non-empty arguments joined with \<^verbatim>\<open>/\<close>, then normalized.\<close>

definition path_join :: "string list \<Rightarrow> jpath" where
  "path_join args = normalize (joinWith ''/'' (filter (\<lambda>a. a \<noteq> []) args))"

text \<open>\<^verbatim>\<open>path.dirname\<close>: the path without its last name.\<close>

definition path_dirname :: "jpath \<Rightarrow> jpath" where
  "path_dirname p = \<lparr>segs = butlast (segs p), trailing = False\<rparr>"

text \<open>
  \<^verbatim>\<open>path.relative(from, to)\<close> on two absolute normalized paths: the common prefix is
  dropped, one \<^verbatim>\<open>..\<close> climbs out of each name left in \<^verbatim>\<open>from\<close>, and the rest of
  \<^verbatim>\<open>to\<close> follows.
\<close>

fun dropCommon :: "path \<Rightarrow> path \<Rightarrow> path \<times> path" where
  "dropCommon (a # as) (b # bs) = (if a = b then dropCommon as bs else (a # as, b # bs))"
| "dropCommon as bs = (as, bs)"

definition path_relative :: "path \<Rightarrow> path \<Rightarrow> string" where
  "path_relative from to =
     (case dropCommon from to of
        (f, t) \<Rightarrow> joinWith ''/'' (replicate (length f) ''..'' @ t))"

subsection \<open>Content ids\<close>

text \<open>
  \<^verbatim>\<open>ContentId\<close> is a number; \<^verbatim>\<open>id.toString()\<close> of an integer is its decimal
  notation, with a minus sign below zero.
\<close>

type_synonym ContentId = int

definition digit :: "nat \<Rightarrow> char" where
  "digit d = ''0123456789'' ! d"

fun digits :: "nat \<Rightarrow> string" where
  "digits n = (if n < 10 then [digit n] else digits (n div 10) @ [digit (n mod 10)])"

declare digits.simps [simp del]

definition toString :: "ContentId \<Rightarrow> string" where
  "toString i = (if i < 0 then CHR ''-'' # digits (nat (- i)) else digits (nat i))"

subsection \<open>The file system (\<^verbatim>\<open>fs-extra\<close>, \<^verbatim>\<open>promisepipe\<close>, \<^verbatim>\<open>glob-promise\<close>)\<close>

text \<open>
  A file system is the list of its entries in directory order; \<^verbatim>\<open>/\<close> itself is
  always a directory. A file holds its bytes.
\<close>

datatype node = Dir | File string

type_synonym filesystem = "(path \<times> node) list"

datatype errno = ENOENT | ENOTDIR | EISDIR | EEXIST | EIO | EACCES | ENOSPC

definition kind :: "filesystem \<Rightarrow> path \<Rightarrow> node option" where
  "kind fs p = (if p = [] then Some Dir else map_of fs p)"

text \<open>
  \<^verbatim>\<open>fsExtra.pathExists\<close> resolves to a boolean and never rejects. A name followed by
  a separator has to be a directory.
\<close>

definition pathExists :: "filesystem \<Rightarrow> jpath \<Rightarrow> bool" where
  "pathExists fs p =
     (case kind fs (segs p) of
        None \<Rightarrow> False
      | Some Dir \<Rightarrow> True
      | Some (File d) \<Rightarrow> \<not> trailing p)"

text \<open>
  Every call that can reject takes \<open>fault\<close>, the error the storage layer raises
  for this call whatever the state (disk full, permission denied, ...), or \<open>None\<close>.
  A call of \<^verbatim>\<open>fs-extra\<close> that rejects leaves the file system as it found it; a
  copy that breaks off leaves what it has written (see \<open>pipeToFile\<close>).

  \<^verbatim>\<open>fsExtra.ensureDir\<close> is \<^verbatim>\<open>mkdir -p\<close>: it walks down the names, creates the
  directories that are missing and rejects when a name on the way is a file.
\<close>

fun mkdirs :: "filesystem \<Rightarrow> path \<Rightarrow> path \<Rightarrow> errno + filesystem" where
  "mkdirs fs pre [] = Inr fs"
| "mkdirs fs pre (s # ss) =
     (case kind fs (pre @ [s]) of
        Some (File d) \<Rightarrow> Inl (if ss = [] then EEXIST else ENOTDIR)
      | Some Dir \<Rightarrow> mkdirs fs (pre @ [s]) ss
      | None \<Rightarrow> mkdirs (fs @ [(pre @ [s], Dir)]) (pre @ [s]) ss)"

definition ensureDir :: "errno option \<Rightarrow> filesystem \<Rightarrow> jpath \<Rightarrow> errno + filesystem" where
  "ensureDir fault fs p =
     (case fault of Some e \<Rightarrow> Inl e | None \<Rightarrow> mkdirs fs [] (segs p))"

text \<open>
  Opening a file for writing and writing \<open>d\<close> to it: the parent has to be a
  directory and the target must not be one; an existing file is replaced.
\<close>

definition writeFile :: "errno option \<Rightarrow> filesystem \<Rightarrow> jpath \<Rightarrow> string \<Rightarrow> errno + filesystem" where
  "writeFile fault fs p d =
     (case fault of
        Some e \<Rightarrow> Inl e
      | None \<Rightarrow>
          if segs p = [] then Inl EISDIR
          else (case kind fs (butlast (segs p)) of
                  None \<Rightarrow> Inl ENOENT
                | Some (File x) \<Rightarrow> Inl ENOTDIR
                | Some Dir \<Rightarrow>
                    (case kind fs (segs p) of
                       Some Dir \<Rightarrow> Inl EISDIR
                     | Some (File x) \<Rightarrow>
                         if trailing p then Inl ENOTDIR
                         else Inr (AList.update (segs p) (File d) fs)
                     | None \<Rightarrow>
                         if trailing p then Inl EISDIR
                         else Inr (AList.update (segs p) (File d) fs))))"

text \<open>
  Documents are opaque to the store; a document is given by the text
  \<^verbatim>\<open>JSON.stringify\<close> yields for it. \<^verbatim>\<open>fsExtra.writeJSON\<close> writes that text and a
  final newline.
\<close>

type_synonym json = string

definition writeJSON :: "errno option \<Rightarrow> filesystem \<Rightarrow> jpath \<Rightarrow> json \<Rightarrow> errno + filesystem" where
  "writeJSON fault fs p obj = writeFile fault fs p (obj @ [CHR 0x0A])"

text \<open>
  \<^verbatim>\<open>fsExtra.createWriteStream\<close> followed by \<^verbatim>\<open>promisepipe(stream, writeStream)\<close>.
  The write stream opens the target, which creates the file or empties it, and the
  bytes the source stream delivers are copied into it. The storage layer can refuse the
  open (\<open>OnOpen\<close>: nothing is touched), or either stream can fail after some bytes
  have been copied (\<open>AfterBytes\<close>: the file keeps what was written so far).
\<close>

datatype streamFault = OnOpen errno | AfterBytes errno nat

definition pipeToFile ::
  "streamFault option \<Rightarrow> filesystem \<Rightarrow> jpath \<Rightarrow> string \<Rightarrow> (errno + unit) \<times> filesystem" where
  "pipeToFile fault fs p stream =
     (case fault of
        Some (OnOpen e) \<Rightarrow> (Inl e, fs)
      | Some (AfterBytes e n) \<Rightarrow>
          (case writeFile None fs p (take n stream) of
             Inl e' \<Rightarrow> (Inl e', fs)
           | Inr fs' \<Rightarrow> (Inl e, fs'))
      | None \<Rightarrow>
          (case writeFile None fs p stream of
             Inl e' \<Rightarrow> (Inl e', fs)
           | Inr fs' \<Rightarrow> (Inr (), fs')))"

text \<open>
  \<^verbatim>\<open>fsExtra.remove\<close> is \<^verbatim>\<open>rm -rf\<close>: the entry and all below it go; removing what
  is not there succeeds.
\<close>

definition remove :: "errno option \<Rightarrow> filesystem \<Rightarrow> jpath \<Rightarrow> errno + filesystem" where
  "remove fault fs p =
     (case fault of
        Some e \<Rightarrow> Inl e
      | None \<Rightarrow> Inr (filter (\<lambda>(q, n). \<not> prefix (segs p) q) fs))"

text \<open>
  \<^verbatim>\<open>fsExtra.createReadStream\<close> returns the stream at once; what the stream then
  delivers is the file's bytes, or the error event of a failed open.
\<close>

definition createReadStream :: "filesystem \<Rightarrow> jpath \<Rightarrow> errno + string" where
  "createReadStream fs p =
     (case kind fs (segs p) of
        None \<Rightarrow> Inl ENOENT
      | Some Dir \<Rightarrow> Inl EISDIR
      | Some (File d) \<Rightarrow> if trailing p then Inl ENOTDIR else Inr d)"

text \<open>
  The one glob the class issues: pattern \<^verbatim>\<open>dir/**/*.*\<close> with the options
  \<^verbatim>\<open>ignore: [dir/content.json]\<close> and \<^verbatim>\<open>nodir: true\<close>. A name matches \<^verbatim>\<open>*.*\<close>
  when it contains a dot and does not begin with one (\<^verbatim>\<open>dot\<close> is not set), and
  \<^verbatim>\<open>**\<close> descends through the directories whose names do not begin with a dot.
  The names of \<open>dir\<close> are matched as they are written: \<^verbatim>\<open>contentPath\<close> is taken
  to hold none of the characters glob gives a meaning to (\<open>literalPath\<close>). The
  matches are listed in the order of the entries; glob sorts them by its locale's
  collation, which is left out, so what is said of the result is said of its members.
\<close>

definition literalPath :: "string \<Rightarrow> bool" where
  "literalPath p = list_all (\<lambda>c. c \<notin> set (''*?[]{}()!+@'' @ [CHR 0x5C])) p"

definition matchStarDotStar :: "string \<Rightarrow> bool" where
  "matchStarDotStar f = (f \<noteq> [] \<and> hd f \<noteq> CHR ''.'' \<and> CHR ''.'' \<in> set f)"

definition matchGlobstar :: "string list \<Rightarrow> bool" where
  "matchGlobstar ds = list_all (\<lambda>d. d \<noteq> [] \<and> hd d \<noteq> CHR ''.'') ds"

definition isFile :: "node \<Rightarrow> bool" where
  "isFile n = (case n of Dir \<Rightarrow> False | File d \<Rightarrow> True)"

definition globContent :: "filesystem \<Rightarrow> path \<Rightarrow> path list" where
  "globContent fs dir =
     map fst (filter (\<lambda>(p, n).
        strict_prefix dir p
        \<and> matchGlobstar (butlast (drop (length dir) p))
        \<and> matchStarDotStar (last p)
        \<and> p \<noteq> dir @ [''content.json'']
        \<and> isFile n) fs)"

subsection \<open>The store\<close>

text \<open>The errors the class throws, one constructor for each \<^verbatim>\<open>throw\<close> and its message.\<close>

datatype error =
    NotFoundError              \<comment> \<open>\<^verbatim>\<open>Cannot add file ...\<close>, \<^verbatim>\<open>Cannot delete content ...\<close>\<close>
  | IdExhaustionError          \<comment> \<open>\<^verbatim>\<open>Could not generate id for new content.\<close>\<close>
  | ContentCreationError errno \<comment> \<open>\<^verbatim>\<open>Could not create content: ${error.message}\<close>\<close>
  | StorageIOError errno       \<comment> \<open>a rejection of the storage layer, passed on as it is\<close>

record FileContentStorage =
  contentPath :: string

text \<open>
  \<^verbatim>\<open>getRandomInt(min, max)\<close>; \<open>r\<close> is the value \<^verbatim>\<open>Math.random()\<close> returns, a
  number in \<open>[0, 1)\<close>. With \<^verbatim>\<open>max - min + 1 = 2 ** 32\<close> the product is exact in
  double precision, so the arithmetic of the reals is the arithmetic of the code.
\<close>

definition getRandomInt :: "real \<Rightarrow> real \<Rightarrow> real \<Rightarrow> int" where
  "getRandomInt minimum maximum r =
     (let finalMin = \<lceil>minimum\<rceil>; finalMax = \<lfloor>maximum\<rfloor>
      in \<lfloor>r * of_int (finalMax - finalMin + 1)\<rfloor> + finalMin)"

text \<open>
  \<^verbatim>\<open>createContentId\<close>: the \<^verbatim>\<open>do ... while (exists && counter < 5)\<close> loop.
  \<open>rnd k\<close> is the value of the \<open>k\<close>-th call of \<^verbatim>\<open>Math.random()\<close>; each turn
  of the loop makes one call, so the turn entered with \<open>counter\<close> uses
  \<open>rnd counter\<close>. The result carries the final value of \<open>counter\<close>, the number of
  ids tried.
\<close>

function createContentId_loop ::
  "FileContentStorage \<Rightarrow> filesystem \<Rightarrow> (nat \<Rightarrow> real) \<Rightarrow> nat \<Rightarrow> (error + ContentId) \<times> nat" where
  "createContentId_loop this fs rnd counter =
     (let cid = getRandomInt 1 (2 ^ 32) (rnd counter);
          counter' = counter + 1;
          exists = pathExists fs (path_join [contentPath this, toString cid])
      in if exists \<and> counter' < 5 then createContentId_loop this fs rnd counter'
         else if exists then (Inl IdExhaustionError, counter')
         else (Inr cid, counter'))"
  by pat_completeness auto
termination
  by (relation "measure (\<lambda>(this, fs, rnd, counter). 5 - counter)") auto

declare createContentId_loop.simps [simp del]

definition createContentId ::
  "FileContentStorage \<Rightarrow> filesystem \<Rightarrow> (nat \<Rightarrow> real) \<Rightarrow> (error + ContentId) \<times> nat" where
  "createContentId this fs rnd = createContentId_loop this fs rnd 0"

text \<open>\<^verbatim>\<open>contentExists\<close>.\<close>

definition contentExists :: "FileContentStorage \<Rightarrow> filesystem \<Rightarrow> ContentId \<Rightarrow> bool" where
  "contentExists this fs contentId = pathExists fs (path_join [contentPath this, toString contentId])"

text \<open>
  \<^verbatim>\<open>addContentFile\<close>. \<open>stream\<close> is the bytes the readable stream delivers. The two
  faults are those of \<^verbatim>\<open>ensureDir\<close> and of the piping. The result is the outcome
  and the file system the call leaves behind.
\<close>

record addFaults =
  ensureDirFault :: "errno option"
  pipeFault :: "streamFault option"

definition addContentFile ::
  "FileContentStorage \<Rightarrow> addFaults \<Rightarrow> filesystem \<Rightarrow> ContentId \<Rightarrow> string \<Rightarrow> string \<Rightarrow> 'u
     \<Rightarrow> (error + unit) \<times> filesystem" where
  "addContentFile this faults fs cid filename stream user =
     (if \<not> pathExists fs (path_join [contentPath this, toString cid])
      then (Inl NotFoundError, fs)
      else
        let fullPath = path_join [contentPath this, toString cid, ''content'', filename]
        in (case ensureDir (ensureDirFault faults) fs (path_dirname fullPath) of
              Inl e \<Rightarrow> (Inl (StorageIOError e), fs)
            | Inr fs1 \<Rightarrow>
                (case pipeToFile (pipeFault faults) fs1 fullPath stream of
                   (Inl e, fs2) \<Rightarrow> (Inl (StorageIOError e), fs2)
                 | (Inr u, fs2) \<Rightarrow> (Inr (), fs2))))"

text \<open>
  \<^verbatim>\<open>createContent\<close>. The \<^verbatim>\<open>catch\<close> block is \<open>rollback\<close>: it awaits
  \<^verbatim>\<open>fsExtra.remove\<close> and then throws the wrapped error; when the removal rejects,
  that rejection leaves the \<^verbatim>\<open>catch\<close> block instead and the \<^verbatim>\<open>throw\<close> is not
  reached. The five faults are those of the four calls in the \<^verbatim>\<open>try\<close> block, in
  order, and of the removal.
\<close>

record createFaults =
  mkIdDirFault :: "errno option"
  mkContentDirFault :: "errno option"
  writeMetadataFault :: "errno option"
  writeContentFault :: "errno option"
  removeFault :: "errno option"

definition rollback ::
  "FileContentStorage \<Rightarrow> createFaults \<Rightarrow> filesystem \<Rightarrow> ContentId \<Rightarrow> errno
     \<Rightarrow> (error + ContentId) \<times> filesystem" where
  "rollback this faults fs cid cause =
     (case remove (removeFault faults) fs (path_join [contentPath this, toString cid]) of
        Inl e \<Rightarrow> (Inl (StorageIOError e), fs)
      | Inr fs' \<Rightarrow> (Inl (ContentCreationError cause), fs'))"

definition createContentWith ::
  "FileContentStorage \<Rightarrow> createFaults \<Rightarrow> filesystem \<Rightarrow> json \<Rightarrow> json \<Rightarrow> ContentId
     \<Rightarrow> (error + ContentId) \<times> filesystem" where
  "createContentWith this faults fs metadata content cid =
     (case ensureDir (mkIdDirFault faults) fs (path_join [contentPath this, toString cid]) of
        Inl e \<Rightarrow> rollback this faults fs cid e
      | Inr fs1 \<Rightarrow>
     (case ensureDir (mkContentDirFault faults) fs1
             (path_join [contentPath this, toString cid, ''content'']) of
        Inl e \<Rightarrow> rollback this faults fs1 cid e
      | Inr fs2 \<Rightarrow>
     (case writeJSON (writeMetadataFault faults) fs2
             (path_join [contentPath this, toString cid, ''h5p.json'']) metadata of
        Inl e \<Rightarrow> rollback this faults fs2 cid e
      | Inr fs3 \<Rightarrow>
     (case writeJSON (writeContentFault faults) fs3
             (path_join [contentPath this, toString cid, ''content'', ''content.json'']) content of
        Inl e \<Rightarrow> rollback this faults fs3 cid e
      | Inr fs4 \<Rightarrow> (Inr cid, fs4)))))"

definition createContent ::
  "FileContentStorage \<Rightarrow> createFaults \<Rightarrow> (nat \<Rightarrow> real) \<Rightarrow> filesystem
     \<Rightarrow> json \<Rightarrow> json \<Rightarrow> 'u \<Rightarrow> ContentId option \<Rightarrow> (error + ContentId) \<times> filesystem" where
  "createContent this faults rnd fs metadata content user cid =
     (case cid of
        Some i \<Rightarrow> createContentWith this faults fs metadata content i
      | None \<Rightarrow>
          (case fst (createContentId this fs rnd) of
             Inl e \<Rightarrow> (Inl e, fs)
           | Inr i \<Rightarrow> createContentWith this faults fs metadata content i))"

text \<open>\<^verbatim>\<open>deleteContent\<close>; the fault is that of the removal.\<close>

definition deleteContent ::
  "FileContentStorage \<Rightarrow> errno option \<Rightarrow> filesystem \<Rightarrow> ContentId \<Rightarrow> 'u option
     \<Rightarrow> (error + unit) \<times> filesystem" where
  "deleteContent this fault fs cid user =
     (if \<not> pathExists fs (path_join [contentPath this, toString cid])
      then (Inl NotFoundError, fs)
      else (case remove fault fs (path_join [contentPath this, toString cid]) of
              Inl e \<Rightarrow> (Inl (StorageIOError e), fs)
            | Inr fs' \<Rightarrow> (Inr (), fs')))"

text \<open>\<^verbatim>\<open>getContentFiles\<close>.\<close>

definition getContentFiles :: "FileContentStorage \<Rightarrow> filesystem \<Rightarrow> ContentId \<Rightarrow> 'u \<Rightarrow> string list" where
  "getContentFiles this fs contentId user =
     (let contentDirectoryPath = path_join [contentPath this, toString contentId, ''content''];
          absolutePaths = globContent fs (segs contentDirectoryPath)
      in map (\<lambda>p. path_relative (segs contentDirectoryPath) p) absolutePaths)"

text \<open>
  \<^verbatim>\<open>getContentFileStream\<close>; the result is what the returned stream delivers.
\<close>

definition getContentFileStream ::
  "FileContentStorage \<Rightarrow> filesystem \<Rightarrow> ContentId \<Rightarrow> string \<Rightarrow> 'u \<Rightarrow> errno + string" where
  "getContentFileStream this fs cid filename user =
     createReadStream fs (path_join [contentPath this, toString cid, filename])"

text \<open>
  Modelled from the spec: the enumeration \<^verbatim>\<open>Permission\<close> of \<^verbatim>\<open>src/types\<close>, which is
  not among the sources; the spec names the capabilities View, Edit, Delete, Download
  and Embed, the five members \<^verbatim>\<open>getUserPermissions\<close> lists.
\<close>

datatype Permission = Delete | Download | Edit | Embed | View

definition getUserPermissions :: "ContentId \<Rightarrow> 'u \<Rightarrow> Permission list" where
  "getUserPermissions contentId user = [Delete, Download, Edit, Embed, View]"

subsection \<open>Locations of a content object\<close>

text \<open>
  A plain name is one that \<^verbatim>\<open>path.join\<close> keeps as it is: not empty, not \<^verbatim>\<open>.\<close> or
  \<^verbatim>\<open>..\<close>, and without a separator.
\<close>

definition plainName :: "string \<Rightarrow> bool" where
  "plainName s = (s \<noteq> [] \<and> s \<noteq> ''.'' \<and> s \<noteq> ''..'' \<and> CHR ''/'' \<notin> set s)"

text \<open>The names of \<^verbatim>\<open>contentPath\<close>, and those of the subdirectory of a content id.\<close>

definition rootSegs :: "FileContentStorage \<Rightarrow> path" where
  "rootSegs this = normalizeString [] (splitOn (CHR ''/'') (contentPath this))"

definition idDir :: "FileContentStorage \<Rightarrow> ContentId \<Rightarrow> path" where
  "idDir this cid = rootSegs this @ [toString cid]"

text \<open>A file system is a tree: what is above an entry is a directory.\<close>

definition wellFormed :: "filesystem \<Rightarrow> bool" where
  "wellFormed fs = list_all (\<lambda>(p, n). kind fs (butlast p) = Some Dir) fs"

subsection \<open>Test fixtures\<close>

text \<open>
  A store rooted at \<^verbatim>\<open>/data\<close>, a storage layer without faults, and a
  \<^verbatim>\<open>Math.random\<close> that returns the same value at every call.
\<close>

definition store :: FileContentStorage where
  "store = \<lparr>contentPath = ''/data''\<rparr>"

definition noFaults :: createFaults where
  "noFaults = \<lparr>mkIdDirFault = None, mkContentDirFault = None, writeMetadataFault = None,
                writeContentFault = None, removeFault = None\<rparr>"

definition noAddFaults :: addFaults where
  "noAddFaults = \<lparr>ensureDirFault = None, pipeFault = None\<rparr>"

definition constRandom :: "real \<Rightarrow> nat \<Rightarrow> real" where
  "constRandom r k = r"

text \<open>
  The scenario of the spec: content 42 is created in an empty file system, then a file
  of ten bytes is attached, with an extension (\<open>fsAttached\<close>) or without one
  (\<open>fsReadme\<close>); \<open>fsTwo\<close> holds a second content object, 43, beside 42.
\<close>

definition fsCreated :: filesystem where
  "fsCreated = snd (createContent store noFaults (constRandom 0) [] ''[1]'' ''[2]'' () (Some 42))"

definition fsAttached :: filesystem where
  "fsAttached = snd (addContentFile store noAddFaults fsCreated 42 ''images/a.png'' ''0123456789'' ())"

definition fsReadme :: filesystem where
  "fsReadme = snd (addContentFile store noAddFaults fsCreated 42 ''README'' ''0123456789'' ())"

definition fsTwo :: filesystem where
  "fsTwo = snd (createContent store noFaults (constRandom 0) fsCreated ''[3]'' ''[4]'' () (Some 43))"

section \<open>Properties\<close>

subsection \<open>Joined paths\<close>

lemma splitOn_nonempty [simp]: "splitOn c s \<noteq> []"
  by (induction s) (auto split: list.splits)

lemma splitOn_append: "splitOn c (a @ c # b) = splitOn c a @ splitOn c b"
  by (induction a) (auto split: list.splits)

lemma splitOn_plain: "c \<notin> set s \<Longrightarrow> splitOn c s = [s]"
  by (induction s) (auto split: list.splits)

lemma splitOn_joinWith:
  "xs \<noteq> [] \<Longrightarrow> splitOn c (joinWith [c] xs) = concat (map (splitOn c) xs)"
proof (induction "[c]" xs rule: joinWith.induct)
  case (3 x y ys)
  then show ?case by (simp add: splitOn_append)
qed simp_all

lemma normalizeString_append:
  "normalizeString acc (xs @ ys) = normalizeString (rev (normalizeString acc xs)) ys"
  by (induction acc xs rule: normalizeString.induct) simp_all

lemma normalizeString_skip_empty:
  "normalizeString acc (concat (map (splitOn c) (filter (\<lambda>a. a \<noteq> []) args)))
     = normalizeString acc (concat (map (splitOn c) args))"
proof (induction args arbitrary: acc)
  case (Cons a args)
  show ?case
  proof (cases "a = []")
    case True
    then show ?thesis using Cons by simp
  next
    case False
    then show ?thesis
      using Cons by (simp add: normalizeString_append)
  qed
qed simp

lemma segs_path_join:
  "segs (path_join args) = normalizeString [] (concat (map (splitOn (CHR ''/'')) args))"
proof (cases "filter (\<lambda>a. a \<noteq> []) args = []")
  case True
  have "normalizeString [] (concat (map (splitOn (CHR ''/'')) args))
          = normalizeString [] (concat (map (splitOn (CHR ''/'')) (filter (\<lambda>a. a \<noteq> []) args)))"
    by (simp only: normalizeString_skip_empty)
  then show ?thesis
    using True by (simp add: path_join_def normalize_def)
next
  case False
  then show ?thesis
    using splitOn_joinWith [OF False, of "CHR ''/''"]
    by (simp add: path_join_def normalize_def normalizeString_skip_empty)
qed

lemma joinWith_nonempty:
  "xs \<noteq> [] \<Longrightarrow> last xs \<noteq> [] \<Longrightarrow> joinWith s xs \<noteq> []"
  by (induction s xs rule: joinWith.induct) auto

lemma last_joinWith:
  "xs \<noteq> [] \<Longrightarrow> last xs \<noteq> [] \<Longrightarrow> last (joinWith s xs) = last (last xs)"
proof (induction s xs rule: joinWith.induct)
  case (3 s x y ys)
  then have "joinWith s (y # ys) \<noteq> []"
    using joinWith_nonempty [of "y # ys" s] by simp
  then show ?case using 3 by simp
qed simp_all

lemma trailing_path_join:
  "trailing (path_join args) =
     (let parts = filter (\<lambda>a. a \<noteq> []) args in parts \<noteq> [] \<and> last (last parts) = CHR ''/'')"
proof (cases "filter (\<lambda>a. a \<noteq> []) args = []")
  case True
  then show ?thesis by (simp add: path_join_def normalize_def)
next
  case False
  have "last (filter (\<lambda>a. a \<noteq> []) args) \<in> set (filter (\<lambda>a. a \<noteq> []) args)"
    using False last_in_set by blast
  then have ne: "last (filter (\<lambda>a. a \<noteq> []) args) \<noteq> []" by simp
  show ?thesis
    using False last_joinWith [OF False ne] joinWith_nonempty [OF False ne]
    by (simp add: path_join_def normalize_def Let_def)
qed

lemma normalizeString_plain:
  "list_all plainName ns \<Longrightarrow> normalizeString acc ns = rev acc @ ns"
  by (induction ns arbitrary: acc) (auto simp: plainName_def)


lemma digits_chars: "set (digits n) \<subseteq> set ''0123456789''"
proof (induction n rule: digits.induct)
  case (1 n)
  have d: "\<And>k. k < 10 \<Longrightarrow> digit k \<in> set ''0123456789''"
    unfolding digit_def by (rule nth_mem) simp
  show ?case
  proof (cases "n < 10")
    case True
    then show ?thesis using d [of n] by (subst digits.simps) simp
  next
    case False
    then show ?thesis
      using 1 d [of "n mod 10"] by (subst digits.simps) simp
  qed
qed

lemma digits_nonempty: "digits n \<noteq> []"
  by (subst digits.simps) simp

lemma digits_avoid: "c \<notin> set ''0123456789'' \<Longrightarrow> c \<notin> set (digits n)"
  using digits_chars [of n] by blast

lemma toString_no_dot: "CHR ''.'' \<notin> set (toString i)"
proof -
  have "CHR ''.'' \<notin> set ''0123456789''" by simp
  then have "\<And>n. CHR ''.'' \<notin> set (digits n)" by (rule digits_avoid)
  then show ?thesis by (simp add: toString_def)
qed

lemma toString_no_sep: "CHR ''/'' \<notin> set (toString i)"
proof -
  have "CHR ''/'' \<notin> set ''0123456789''" by simp
  then have "\<And>n. CHR ''/'' \<notin> set (digits n)" by (rule digits_avoid)
  then show ?thesis by (simp add: toString_def)
qed

lemma plainName_toString: "plainName (toString i)"
proof -
  have ne: "toString i \<noteq> []"
    by (simp add: toString_def digits_nonempty)
  have "toString i \<noteq> ''.''" and "toString i \<noteq> ''..''"
    using toString_no_dot [of i] by auto
  then show ?thesis
    using ne toString_no_sep [of i] by (simp add: plainName_def)
qed

lemma concat_split_plain:
  "list_all plainName ns \<Longrightarrow> concat (map (splitOn (CHR ''/'')) ns) = ns"
  by (induction ns) (auto simp: plainName_def splitOn_plain)

lemma path_join_names:
  assumes "list_all plainName names"
  shows "path_join (contentPath this # toString cid # names)
           = \<lparr>segs = idDir this cid @ names, trailing = False\<rparr>"
proof -
  have pl: "list_all plainName (toString cid # names)"
    using assms plainName_toString by simp
  have sp: "concat (map (splitOn (CHR ''/'')) (toString cid # names)) = toString cid # names"
    using pl by (rule concat_split_plain)
  have s: "segs (path_join (contentPath this # toString cid # names)) = idDir this cid @ names"
    using sp normalizeString_plain [OF pl]
    by (simp add: segs_path_join normalizeString_append idDir_def rootSegs_def)
  have lastpl: "plainName (last (toString cid # names))"
    using pl by (metis last_in_set list.discI list_all_iff)
  then have "last (last (toString cid # names)) \<noteq> CHR ''/''"
    by (metis last_in_set plainName_def)
  moreover have "filter (\<lambda>a. a \<noteq> []) (toString cid # names) = toString cid # names"
    using pl by (simp add: filter_id_conv list_all_iff plainName_def)
  ultimately have t: "\<not> trailing (path_join (contentPath this # toString cid # names))"
    by (simp add: trailing_path_join Let_def)
  show ?thesis using s t by (cases "path_join (contentPath this # toString cid # names)") simp
qed

lemma path_join_id:
  "path_join [contentPath this, toString cid] = \<lparr>segs = idDir this cid, trailing = False\<rparr>"
  using path_join_names [of "[]" this cid] by simp

lemma path_join_content:
  "path_join [contentPath this, toString cid, ''content'']
     = \<lparr>segs = idDir this cid @ [''content''], trailing = False\<rparr>"
  using path_join_names [of "[''content'']" this cid] by (simp add: plainName_def)

lemma path_join_h5p:
  "path_join [contentPath this, toString cid, ''h5p.json'']
     = \<lparr>segs = idDir this cid @ [''h5p.json''], trailing = False\<rparr>"
  using path_join_names [of "[''h5p.json'']" this cid] by (simp add: plainName_def)

lemma path_join_content_json:
  "path_join [contentPath this, toString cid, ''content'', ''content.json'']
     = \<lparr>segs = idDir this cid @ [''content'', ''content.json''], trailing = False\<rparr>"
  using path_join_names [of "[''content'', ''content.json'']" this cid] by (simp add: plainName_def)

lemma idDir_nonempty [simp]: "idDir this cid \<noteq> []"
  by (simp add: idDir_def)

lemma segs_join_filename:
  "segs (path_join [contentPath this, toString cid, filename])
     = normalizeString (rev (idDir this cid)) (splitOn (CHR ''/'') filename)"
  using plainName_toString [of cid]
  by (simp add: segs_path_join normalizeString_append idDir_def rootSegs_def
                splitOn_plain plainName_def)

lemma segs_join_content_filename:
  "segs (path_join [contentPath this, toString cid, ''content'', filename])
     = normalizeString (rev (idDir this cid @ [''content''])) (splitOn (CHR ''/'') filename)"
  using plainName_toString [of cid]
  by (simp add: segs_path_join normalizeString_append idDir_def rootSegs_def
                splitOn_plain plainName_def)

subsection \<open>The file system calls\<close>

lemma kind_root [simp]: "kind fs [] = Some Dir"
  by (simp add: kind_def)

lemma kind_parent:
  assumes "wellFormed fs" and "kind fs (p @ [x]) = Some n"
  shows "kind fs p = Some Dir"
proof -
  have "(p @ [x], n) \<in> set fs"
    using assms(2) by (auto simp: kind_def dest: map_of_SomeD)
  then show ?thesis
    using assms(1) by (auto simp: wellFormed_def list_all_iff)
qed

lemma kind_ancestor:
  "wellFormed fs \<Longrightarrow> kind fs (p @ q) = Some n \<Longrightarrow> q \<noteq> [] \<Longrightarrow> kind fs p = Some Dir"
proof (induction q arbitrary: n rule: rev_induct)
  case Nil
  then show ?case by simp
next
  case (snoc x q)
  have par: "kind fs (p @ q) = Some Dir"
    using kind_parent [OF snoc.prems(1), of "p @ q" x n] snoc.prems(2) by simp
  show ?case
  proof (cases "q = []")
    case True
    then show ?thesis using par by simp
  next
    case False
    then show ?thesis using snoc.IH [OF snoc.prems(1) par] by simp
  qed
qed

lemma kind_append_entry:
  "kind fs p = None \<Longrightarrow> kind (fs @ [(p, n)]) q = (if q = p then Some n else kind fs q)"
  by (auto simp: kind_def map_add_def split: option.splits if_splits)

lemma mkdirs_preserves:
  "mkdirs fs pre ss = Inr fs' \<Longrightarrow> kind fs q = Some n \<Longrightarrow> kind fs' q = Some n"
proof (induction fs pre ss rule: mkdirs.induct)
  case (2 fs pre s ss)
  show ?case
  proof (cases "kind fs (pre @ [s])")
    case None
    then have "q \<noteq> pre @ [s]" using 2(4) by auto
    then have "kind (fs @ [(pre @ [s], Dir)]) q = Some n"
      using None 2(4) by (simp add: kind_append_entry)
    moreover have "mkdirs (fs @ [(pre @ [s], Dir)]) (pre @ [s]) ss = Inr fs'"
      using 2(3) None by simp
    ultimately show ?thesis using 2(1) [OF None] by simp
  next
    case (Some m)
    then obtain "m = Dir" "mkdirs fs (pre @ [s]) ss = Inr fs'"
      using 2(3) by (cases m) auto
    then show ?thesis using 2(2) [OF Some] 2(4) by simp
  qed
qed simp

lemma mkdirs_creates:
  "mkdirs fs pre ss = Inr fs' \<Longrightarrow> ss \<noteq> [] \<Longrightarrow> kind fs' (pre @ ss) = Some Dir"
proof (induction fs pre ss rule: mkdirs.induct)
  case (2 fs pre s ss)
  show ?case
  proof (cases "ss = []")
    case True
    then show ?thesis using 2
      by (auto simp: kind_append_entry split: option.splits node.splits if_splits)
  next
    case False
    then show ?thesis using 2
      by (auto split: option.splits node.splits if_splits)
  qed
qed simp

lemma mkdirs_changes:
  "mkdirs fs pre ss = Inr fs' \<Longrightarrow> kind fs' q \<noteq> kind fs q \<Longrightarrow>
     kind fs q = None \<and> kind fs' q = Some Dir \<and> strict_prefix pre q \<and> prefix q (pre @ ss)"
proof (induction fs pre ss rule: mkdirs.induct)
  case (2 fs pre s ss)
  show ?case
  proof (cases "kind fs (pre @ [s])")
    case None
    let ?fs1 = "fs @ [(pre @ [s], Dir)]"
    have m: "mkdirs ?fs1 (pre @ [s]) ss = Inr fs'"
      using 2(3) None by simp
    show ?thesis
    proof (cases "q = pre @ [s]")
      case True
      have "kind ?fs1 q = Some Dir" using None True by (simp add: kind_append_entry)
      then have "kind fs' q = Some Dir" using mkdirs_preserves [OF m] by simp
      then show ?thesis using None True by (simp add: strict_prefix_def)
    next
      case False
      then have same: "kind ?fs1 q = kind fs q" using None by (simp add: kind_append_entry)
      then have "kind fs' q \<noteq> kind ?fs1 q" using 2(4) by simp
      from 2(1) [OF None m this] show ?thesis
        using same by (auto simp: strict_prefix_def prefix_def)
    qed
  next
    case (Some n)
    then obtain m: "n = Dir" "mkdirs fs (pre @ [s]) ss = Inr fs'"
      using 2(3) by (cases n) auto
    from 2(2) [OF Some m(1) m(2) 2(4)] show ?thesis
      by (auto simp: strict_prefix_def prefix_def)
  qed
qed simp

lemma mkdirs_existing:
  "wellFormed fs \<Longrightarrow> kind fs (pre @ ss) = Some Dir \<Longrightarrow> mkdirs fs pre ss = Inr fs"
proof (induction ss arbitrary: pre)
  case (Cons s ss)
  have "kind fs (pre @ [s]) = Some Dir"
  proof (cases "ss = []")
    case True
    then show ?thesis using Cons.prems(2) by simp
  next
    case False
    then show ?thesis
      using kind_ancestor [OF Cons.prems(1), of "pre @ [s]" ss Dir] Cons.prems(2) by simp
  qed
  then show ?case using Cons by simp
qed simp

lemma writeFile_kind:
  "writeFile fault fs p d = Inr fs' \<Longrightarrow>
     kind fs' q = (if q = segs p then Some (File d) else kind fs q)"
  by (auto simp: writeFile_def kind_def update_conv
           split: option.splits node.splits if_splits)

lemma writeFile_ok:
  "writeFile fault fs p d = Inr fs' \<Longrightarrow>
     fault = None \<and> segs p \<noteq> [] \<and> \<not> trailing p \<and> kind fs (butlast (segs p)) = Some Dir
     \<and> kind fs (segs p) \<noteq> Some Dir"
  by (auto simp: writeFile_def split: option.splits node.splits if_splits)

lemma writeFile_succeeds:
  "segs p \<noteq> [] \<Longrightarrow> \<not> trailing p \<Longrightarrow> kind fs (butlast (segs p)) = Some Dir
     \<Longrightarrow> kind fs (segs p) \<noteq> Some Dir \<Longrightarrow> \<exists>fs'. writeFile None fs p d = Inr fs'"
  by (auto simp: writeFile_def split: option.splits node.splits if_splits)

lemma map_of_filter_fst:
  "map_of (filter (\<lambda>(q, n). P q) fs) q = (if P q then map_of fs q else None)"
  by (induction fs) auto

lemma remove_kind:
  "remove fault fs p = Inr fs' \<Longrightarrow>
     kind fs' q = (if q \<noteq> [] \<and> prefix (segs p) q then None else kind fs q)"
  by (auto simp: remove_def kind_def map_of_filter_fst split: option.splits)

subsection \<open>Permissions, attaching to a missing id, the id loop\<close>

lemma rootSegs_store: "rootSegs store = [''data'']"
  by (simp add: rootSegs_def store_def)

lemma toString_42: "toString 42 = ''42''"
  by (simp add: toString_def digits.simps digit_def)

lemma toString_1: "toString 1 = ''1''"
  by (simp add: toString_def digits.simps digit_def)

lemma idDir_store_42: "idDir store 42 = [''data'', ''42'']"
  by (simp add: idDir_def rootSegs_store toString_42)

lemma idDir_store_1: "idDir store 1 = [''data'', ''1'']"
  by (simp add: idDir_def rootSegs_store toString_1)

text \<open>
  Claim C9. For every content id and every user, \<^verbatim>\<open>getUserPermissions\<close> returns the
  full permission set, View, Edit, Delete, Download and Embed (every member of the
  enumeration), and the result does not depend on the id or the user.
\<close>

theorem getUserPermissions_full:
  "set (getUserPermissions contentId user) = {View, Edit, Delete, Download, Embed}
   \<and> set (getUserPermissions contentId user) = UNIV
   \<and> getUserPermissions contentId user = getUserPermissions contentId' user'"
proof -
  have "(UNIV :: Permission set) = {View, Edit, Delete, Download, Embed}"
    by (auto intro: Permission.exhaust)
  then show ?thesis by (auto simp: getUserPermissions_def)
qed

text \<open>
  Claim C6. For an id whose subdirectory does not exist, \<^verbatim>\<open>addContentFile\<close> fails
  with the not-found error whatever the file name, the stream, the user and the faults
  of the storage layer, and the file system it leaves is the one it found.
\<close>

theorem addContentFile_missing_id:
  "\<not> contentExists this fs cid \<Longrightarrow>
     addContentFile this faults fs cid filename stream user = (Inl NotFoundError, fs)"
  by (simp add: addContentFile_def contentExists_def)

theorem addContentFile_missing_id_witness:
  "\<not> contentExists store [] 42
   \<and> addContentFile store noAddFaults [] 42 ''images/a.png'' ''0123456789'' () = (Inl NotFoundError, [])"
proof -
  have h: "\<not> contentExists store [] 42"
    by (simp add: contentExists_def path_join_id pathExists_def kind_def)
  show ?thesis
    using h addContentFile_missing_id [OF h, of noAddFaults "''images/a.png''" "''0123456789''" "()"]
    by simp
qed

lemma getRandomInt_range:
  assumes "0 \<le> r" and "r < 1"
  shows "1 \<le> getRandomInt 1 (2 ^ 32) r \<and> getRandomInt 1 (2 ^ 32) r \<le> 2 ^ 32"
proof -
  have lo: "0 \<le> \<lfloor>r * 4294967296\<rfloor>"
    using assms(1) by simp
  have "r * 4294967296 < 4294967296"
    using assms(2) by simp
  then have hi: "\<lfloor>r * 4294967296\<rfloor> < 4294967296"
    by (simp add: floor_less_iff)
  show ?thesis
    using lo hi by (simp add: getRandomInt_def Let_def)
qed

lemma loop_found:
  "counter < 5 \<Longrightarrow> createContentId_loop this fs rnd counter = (Inr i, n) \<Longrightarrow>
     counter < n \<and> n \<le> 5 \<and> i = getRandomInt 1 (2 ^ 32) (rnd (n - 1))
     \<and> \<not> contentExists this fs i
     \<and> (\<forall>k. counter \<le> k \<and> k < n - 1 \<longrightarrow> contentExists this fs (getRandomInt 1 (2 ^ 32) (rnd k)))"
proof (induction this fs rnd counter rule: createContentId_loop.induct)
  case (1 this fs rnd counter)
  let ?i = "getRandomInt 1 (2 ^ 32) (rnd counter)"
  show ?case
  proof (cases "contentExists this fs ?i \<and> counter + 1 < 5")
    case True
    then have rec: "createContentId_loop this fs rnd (counter + 1) = (Inr i, n)"
      using 1(3) by (subst (asm) createContentId_loop.simps) (simp add: contentExists_def Let_def)
    have c1: "pathExists fs (path_join [contentPath this, toString ?i]) \<and> counter + 1 < 5"
      using True by (simp add: contentExists_def)
    have c2: "counter + 1 < 5" using True by simp
    note ih = 1(1) [OF refl refl refl c1 c2 rec]
    have "\<And>k. counter \<le> k \<Longrightarrow> k < n - 1 \<Longrightarrow> contentExists this fs (getRandomInt 1 (2 ^ 32) (rnd k))"
    proof -
      fix k assume "counter \<le> k" "k < n - 1"
      then show "contentExists this fs (getRandomInt 1 (2 ^ 32) (rnd k))"
        using ih True by (cases "k = counter") auto
    qed
    then show ?thesis using ih by auto
  next
    case False
    then show ?thesis
      using 1(3) 1(2) by (subst (asm) createContentId_loop.simps)
                         (auto simp: contentExists_def Let_def split: if_splits)
  qed
qed

lemma loop_exhausted:
  "counter < 5 \<Longrightarrow> createContentId_loop this fs rnd counter = (Inl e, n) \<Longrightarrow>
     e = IdExhaustionError \<and> n = 5
     \<and> (\<forall>k. counter \<le> k \<and> k < 5 \<longrightarrow> contentExists this fs (getRandomInt 1 (2 ^ 32) (rnd k)))"
proof (induction this fs rnd counter rule: createContentId_loop.induct)
  case (1 this fs rnd counter)
  let ?i = "getRandomInt 1 (2 ^ 32) (rnd counter)"
  show ?case
  proof (cases "contentExists this fs ?i \<and> counter + 1 < 5")
    case True
    then have rec: "createContentId_loop this fs rnd (counter + 1) = (Inl e, n)"
      using 1(3) by (subst (asm) createContentId_loop.simps) (simp add: contentExists_def Let_def)
    have c1: "pathExists fs (path_join [contentPath this, toString ?i]) \<and> counter + 1 < 5"
      using True by (simp add: contentExists_def)
    have c2: "counter + 1 < 5" using True by simp
    note ih = 1(1) [OF refl refl refl c1 c2 rec]
    have "\<And>k. counter \<le> k \<Longrightarrow> k < 5 \<Longrightarrow> contentExists this fs (getRandomInt 1 (2 ^ 32) (rnd k))"
    proof -
      fix k assume "counter \<le> k" "k < 5"
      then show "contentExists this fs (getRandomInt 1 (2 ^ 32) (rnd k))"
        using ih True by (cases "k = counter") auto
    qed
    then show ?thesis using ih by auto
  next
    case False
    have res: "contentExists this fs ?i \<and> e = IdExhaustionError \<and> n = counter + 1"
      using 1(3) False
      by (subst (asm) createContentId_loop.simps)
         (auto simp: contentExists_def Let_def split: if_splits)
    then have c: "counter = 4" using False 1(2) by simp
    have all: "\<forall>k. counter \<le> k \<and> k < 5 \<longrightarrow> contentExists this fs (getRandomInt 1 (2 ^ 32) (rnd k))"
    proof (intro allI impI)
      fix k assume "counter \<le> k \<and> k < 5"
      then have "k = counter" using c by simp
      then show "contentExists this fs (getRandomInt 1 (2 ^ 32) (rnd k))" using res by simp
    qed
    have "e = IdExhaustionError \<and> n = 5" using res c by simp
    then show ?thesis using all by blast
  qed
qed

lemma getRandomInt_value: "getRandomInt 1 (2 ^ 32) r = \<lfloor>r * 2 ^ 32\<rfloor> + 1"
  by (simp add: getRandomInt_def)

lemma getRandomInt_onto:
  assumes "1 \<le> i" and "i \<le> 2 ^ 32"
  shows "\<exists>r. 0 \<le> r \<and> r < 1 \<and> getRandomInt 1 (2 ^ 32) r = i"
proof -
  let ?r = "(of_int (i - 1) :: real) / 4294967296"
  have "0 \<le> ?r" using assms(1) by simp
  moreover have "?r < 1" using assms(2) by simp
  moreover have "?r * 4294967296 = of_int (i - 1)" by simp
  then have "\<lfloor>?r * 4294967296\<rfloor> = i - 1" by (simp only: floor_of_int)
  then have "getRandomInt 1 (2 ^ 32) ?r = i" by (simp add: getRandomInt_def)
  ultimately show ?thesis by blast
qed

text \<open>
  Claim C3. The id drawn from the value \<open>r\<close> of \<^verbatim>\<open>Math.random\<close> is
  \<open>\<lfloor>r * 2\<^sup>3\<^sup>2\<rfloor> + 1\<close>; every integer in \<open>[1, 2\<^sup>3\<^sup>2]\<close> is the id of some \<open>r\<close> in
  \<open>[0, 1)\<close>, and when \<^verbatim>\<open>Math.random\<close> returns values in \<open>[0, 1)\<close> every id that
  \<^verbatim>\<open>createContentId\<close> draws lies in \<open>[1, 2\<^sup>3\<^sup>2]\<close>. The call tries at most five
  ids: when it returns an id, that id is the last one drawn, it is free, and all ids
  drawn before it exist; when it fails, the error is the exhaustion error, exactly five
  ids were tried and all five exist. Conversely, when the first five ids drawn all
  exist, the call fails after exactly five attempts.
\<close>

theorem createContentId_attempts:
  assumes "\<forall>k<5. 0 \<le> rnd k \<and> rnd k < 1"
  shows "(\<forall>r. getRandomInt 1 (2 ^ 32) r = \<lfloor>r * 2 ^ 32\<rfloor> + 1)
     \<and> (\<forall>i. 1 \<le> i \<and> i \<le> 2 ^ 32 \<longrightarrow> (\<exists>r. 0 \<le> r \<and> r < 1 \<and> getRandomInt 1 (2 ^ 32) r = i))
     \<and> (\<forall>k<5. 1 \<le> getRandomInt 1 (2 ^ 32) (rnd k) \<and> getRandomInt 1 (2 ^ 32) (rnd k) \<le> 2 ^ 32)
     \<and> (case createContentId this fs rnd of
          (Inr i, n) \<Rightarrow>
            1 \<le> n \<and> n \<le> 5 \<and> i = getRandomInt 1 (2 ^ 32) (rnd (n - 1))
            \<and> \<not> contentExists this fs i
            \<and> (\<forall>k<n - 1. contentExists this fs (getRandomInt 1 (2 ^ 32) (rnd k)))
        | (Inl e, n) \<Rightarrow>
            e = IdExhaustionError \<and> n = 5
            \<and> (\<forall>k<5. contentExists this fs (getRandomInt 1 (2 ^ 32) (rnd k))))
     \<and> ((\<forall>k<5. contentExists this fs (getRandomInt 1 (2 ^ 32) (rnd k)))
          \<longrightarrow> createContentId this fs rnd = (Inl IdExhaustionError, 5))"
proof -
  have val: "\<forall>r. getRandomInt 1 (2 ^ 32) r = \<lfloor>r * 2 ^ 32\<rfloor> + 1"
    using getRandomInt_value by blast
  have onto: "\<forall>i. 1 \<le> i \<and> i \<le> 2 ^ 32 \<longrightarrow> (\<exists>r. 0 \<le> r \<and> r < 1 \<and> getRandomInt 1 (2 ^ 32) r = i)"
    using getRandomInt_onto by blast
  have range: "\<forall>k<5. 1 \<le> getRandomInt 1 (2 ^ 32) (rnd k) \<and> getRandomInt 1 (2 ^ 32) (rnd k) \<le> 2 ^ 32"
    using assms getRandomInt_range by blast
  obtain r n where res: "createContentId this fs rnd = (r, n)"
    by (cases "createContentId this fs rnd")
  then have loop: "createContentId_loop this fs rnd 0 = (r, n)"
    by (simp add: createContentId_def)
  have shape: "case (r, n) of
          (Inr i, n) \<Rightarrow>
            1 \<le> n \<and> n \<le> 5 \<and> i = getRandomInt 1 (2 ^ 32) (rnd (n - 1))
            \<and> \<not> contentExists this fs i
            \<and> (\<forall>k<n - 1. contentExists this fs (getRandomInt 1 (2 ^ 32) (rnd k)))
        | (Inl e, n) \<Rightarrow>
            e = IdExhaustionError \<and> n = 5
            \<and> (\<forall>k<5. contentExists this fs (getRandomInt 1 (2 ^ 32) (rnd k)))"
  proof (cases r)
    case (Inl e)
    then show ?thesis using loop_exhausted [of 0 this fs rnd e n] loop by auto
  next
    case (Inr i)
    then show ?thesis using loop_found [of 0 this fs rnd i n] loop by auto
  qed
  have all: "(\<forall>k<5. contentExists this fs (getRandomInt 1 (2 ^ 32) (rnd k)))
          \<longrightarrow> (r, n) = (Inl IdExhaustionError, 5)"
  proof
    assume taken: "\<forall>k<5. contentExists this fs (getRandomInt 1 (2 ^ 32) (rnd k))"
    show "(r, n) = (Inl IdExhaustionError, 5)"
    proof (cases r)
      case (Inl e)
      then show ?thesis using shape by simp
    next
      case (Inr i)
      then have "1 \<le> n \<and> n \<le> 5 \<and> \<not> contentExists this fs (getRandomInt 1 (2 ^ 32) (rnd (n - 1)))"
        using shape by auto
      moreover from this have "n - 1 < 5" by arith
      ultimately show ?thesis using taken by blast
    qed
  qed
  show ?thesis using val onto range shape all unfolding res by blast
qed

lemma toString_half: "toString 2147483649 = ''2147483649''"
  by (simp add: toString_def digits.simps digit_def)

lemma getRandomInt_half: "getRandomInt 1 4294967296 (1 / 2) = 2147483649"
  by (simp add: getRandomInt_def)

lemma createContentId_free:
  "createContentId store [] (constRandom (1 / 2)) = (Inr 2147483649, 1)"
  unfolding createContentId_def
  by (subst createContentId_loop.simps)
     (simp add: constRandom_def getRandomInt_half path_join_id pathExists_def kind_def)

theorem createContentId_attempts_witness:
  "list_all (\<lambda>k. 0 \<le> constRandom (1 / 2) k \<and> constRandom (1 / 2) k < 1) [0 ..< 5]
   \<and> getRandomInt 1 (2 ^ 32) (constRandom (1 / 2) 0) = 2147483649
   \<and> list_all (\<lambda>k. contentExists store [([''data''], Dir), ([''data'', ''2147483649''], Dir)]
                        (getRandomInt 1 (2 ^ 32) (constRandom (1 / 2) k))) [0 ..< 5]
   \<and> createContentId store [([''data''], Dir), ([''data'', ''2147483649''], Dir)] (constRandom (1 / 2))
       = (Inl IdExhaustionError, 5)
   \<and> createContentId store [] (constRandom (1 / 2)) = (Inr 2147483649, 1)
   \<and> \<not> contentExists store [] 2147483649"
proof -
  have h: "\<forall>k<5. 0 \<le> constRandom (1 / 2) k \<and> constRandom (1 / 2) k < 1"
    by (simp add: constRandom_def)
  have v: "getRandomInt 1 (2 ^ 32) (constRandom (1 / 2) 0) = 2147483649"
    by (simp add: constRandom_def getRandomInt_half)
  have idd: "idDir store 2147483649 = [''data'', ''2147483649'']"
    by (simp add: idDir_def rootSegs_store toString_half)
  have t: "\<forall>k<5. contentExists store [([''data''], Dir), ([''data'', ''2147483649''], Dir)]
                 (getRandomInt 1 (2 ^ 32) (constRandom (1 / 2) k))"
    by (simp add: constRandom_def getRandomInt_half contentExists_def path_join_id idd
                  pathExists_def kind_def)
  have f: "\<not> contentExists store [] 2147483649"
    by (simp add: contentExists_def path_join_id pathExists_def kind_def)
  note inst = createContentId_attempts [OF h]
  have ex: "createContentId store [([''data''], Dir), ([''data'', ''2147483649''], Dir)] (constRandom (1 / 2))
       = (Inl IdExhaustionError, 5)"
    using inst [of store "[([''data''], Dir), ([''data'', ''2147483649''], Dir)]"] t by blast
  show ?thesis
    using h v t ex createContentId_free f by (simp add: list_all_iff)
qed

subsection \<open>Creating content\<close>

lemma toString_43: "toString 43 = ''43''"
  by (simp add: toString_def digits.simps digit_def)

lemma idDir_store_43: "idDir store 43 = [''data'', ''43'']"
  by (simp add: idDir_def rootSegs_store toString_43)

lemmas eval_simps =
  createContent_def createContentWith_def rollback_def addContentFile_def deleteContent_def
  getContentFileStream_def contentExists_def
  path_join_id path_join_content path_join_h5p path_join_content_json
  idDir_store_42 idDir_store_43
  ensureDir_def writeJSON_def pipeToFile_def writeFile_def remove_def createReadStream_def
  pathExists_def kind_def noFaults_def noAddFaults_def path_dirname_def

lemma fsCreated_eq:
  "fsCreated =
     [([''data''], Dir), ([''data'', ''42''], Dir), ([''data'', ''42'', ''content''], Dir),
      ([''data'', ''42'', ''h5p.json''], File ''[1]\<newline>''),
      ([''data'', ''42'', ''content'', ''content.json''], File ''[2]\<newline>'')]"
  by (simp add: fsCreated_def eval_simps)

lemma create_42:
  "createContent store noFaults (constRandom 0) [] ''[1]'' ''[2]'' () (Some 42) = (Inr 42, fsCreated)"
  unfolding fsCreated_eq by (simp add: eval_simps)


lemma ensureDir_creates:
  "ensureDir fault fs p = Inr fs' \<Longrightarrow> segs p \<noteq> [] \<Longrightarrow> kind fs' (segs p) = Some Dir"
  using mkdirs_creates [of fs "[]" "segs p" fs']
  by (auto simp: ensureDir_def split: option.splits)

lemma ensureDir_preserves:
  "ensureDir fault fs p = Inr fs' \<Longrightarrow> kind fs q = Some n \<Longrightarrow> kind fs' q = Some n"
  using mkdirs_preserves [of fs "[]" "segs p" fs' q n]
  by (auto simp: ensureDir_def split: option.splits)

lemma writeJSON_kind:
  "writeJSON fault fs p obj = Inr fs' \<Longrightarrow>
     kind fs' q = (if q = segs p then Some (File (obj @ [CHR 0x0A])) else kind fs q)"
  unfolding writeJSON_def by (rule writeFile_kind)

lemma rollback_result:
  assumes "rollback this faults fs cid cause = (r, fs')"
  shows "(removeFault faults = None \<longrightarrow>
            r = Inl (ContentCreationError cause) \<and> \<not> contentExists this fs' cid)
         \<and> (\<forall>e. removeFault faults = Some e \<longrightarrow> r = Inl (StorageIOError e) \<and> fs' = fs)"
proof (cases "removeFault faults")
  case None
  then obtain fs1 where rm: "remove None fs (path_join [contentPath this, toString cid]) = Inr fs1"
    by (simp add: remove_def)
  then have "kind fs1 (idDir this cid) = None"
    using remove_kind [OF rm, of "idDir this cid"] by (simp add: path_join_id)
  then have "\<not> contentExists this fs1 cid"
    by (simp add: contentExists_def pathExists_def path_join_id)
  then show ?thesis
    using assms None rm by (simp add: rollback_def)
next
  case (Some e)
  then show ?thesis
    using assms by (simp add: rollback_def remove_def)
qed

lemma createContentWith_cases:
  assumes "createContentWith this faults fs metadata content cid = (r, fs')"
  shows "(\<exists>fs0 cause. rollback this faults fs0 cid cause = (r, fs'))
         \<or> (r = Inr cid
             \<and> kind fs' (idDir this cid) = Some Dir
             \<and> kind fs' (idDir this cid @ [''content'']) = Some Dir
             \<and> kind fs' (idDir this cid @ [''h5p.json'']) = Some (File (metadata @ [CHR 0x0A]))
             \<and> kind fs' (idDir this cid @ [''content'', ''content.json''])
                  = Some (File (content @ [CHR 0x0A])))"
proof (cases "ensureDir (mkIdDirFault faults) fs (path_join [contentPath this, toString cid])")
  case (Inl e)
  then show ?thesis using assms by (auto simp: createContentWith_def)
next
  case (Inr fs1)
  note s1 = Inr
  show ?thesis
  proof (cases "ensureDir (mkContentDirFault faults) fs1
                  (path_join [contentPath this, toString cid, ''content''])")
    case (Inl e)
    then show ?thesis using assms s1 by (auto simp: createContentWith_def)
  next
    case (Inr fs2)
    note s2 = Inr
    show ?thesis
    proof (cases "writeJSON (writeMetadataFault faults) fs2
                    (path_join [contentPath this, toString cid, ''h5p.json'']) metadata")
      case (Inl e)
      then show ?thesis using assms s1 s2 by (auto simp: createContentWith_def)
    next
      case (Inr fs3)
      note s3 = Inr
      show ?thesis
      proof (cases "writeJSON (writeContentFault faults) fs3
                      (path_join [contentPath this, toString cid, ''content'', ''content.json''])
                      content")
        case (Inl e)
        then show ?thesis using assms s1 s2 s3 by (auto simp: createContentWith_def)
      next
        case (Inr fs4)
        then have res: "r = Inr cid" "fs' = fs4"
          using assms s1 s2 s3 by (auto simp: createContentWith_def)
        have d1: "kind fs1 (idDir this cid) = Some Dir"
          using ensureDir_creates [OF s1] by (simp add: path_join_id)
        have d2: "kind fs2 (idDir this cid) = Some Dir"
          using ensureDir_preserves [OF s2 d1] .
        have c2: "kind fs2 (idDir this cid @ [''content'']) = Some Dir"
          using ensureDir_creates [OF s2] by (simp add: path_join_content)
        have k3: "\<And>q. kind fs3 q = (if q = idDir this cid @ [''h5p.json'']
                     then Some (File (metadata @ [CHR 0x0A])) else kind fs2 q)"
          using writeJSON_kind [OF s3] by (simp add: path_join_h5p)
        have k4: "\<And>q. kind fs4 q = (if q = idDir this cid @ [''content'', ''content.json'']
                     then Some (File (content @ [CHR 0x0A])) else kind fs3 q)"
          using writeJSON_kind [OF Inr] by (simp add: path_join_content_json)
        show ?thesis
          using res d2 c2 by (simp add: k3 k4)
      qed
    qed
  qed
qed

lemma createContent_cases:
  assumes "createContent this faults rnd fs metadata content user idopt = (r, fs')"
  shows "(idopt = None \<and> r = Inl IdExhaustionError \<and> fs' = fs
            \<and> fst (createContentId this fs rnd) = Inl IdExhaustionError)
         \<or> (\<exists>cid. (idopt = Some cid \<or> idopt = None \<and> fst (createContentId this fs rnd) = Inr cid)
                 \<and> createContentWith this faults fs metadata content cid = (r, fs'))"
proof (cases idopt)
  case (Some cid)
  then show ?thesis using assms by (simp add: createContent_def)
next
  case None
  obtain x n where cr: "createContentId this fs rnd = (x, n)"
    by (cases "createContentId this fs rnd")
  show ?thesis
  proof (cases x)
    case (Inl e)
    then have "e = IdExhaustionError"
      using loop_exhausted [of 0 this fs rnd e n] cr by (simp add: createContentId_def)
    then show ?thesis using assms None cr Inl by (simp add: createContent_def)
  next
    case (Inr cid)
    then show ?thesis using assms None cr by (simp add: createContent_def)
  qed
qed

text \<open>
  Claim C8. When \<^verbatim>\<open>createContent\<close> returns an id, \<^verbatim>\<open>contentExists\<close> is true for
  that id in the file system the call leaves. For an existing id, \<^verbatim>\<open>deleteContent\<close>
  returns when the removal does not fault, and whenever it returns \<^verbatim>\<open>contentExists\<close>
  is false for the id afterwards. For an id that does not exist, \<^verbatim>\<open>deleteContent\<close>
  fails with the not-found error and changes nothing.
\<close>

theorem contentExists_create_delete:
  "(createContent this faults rnd fs metadata content user idopt = (Inr i, fs1)
      \<longrightarrow> contentExists this fs1 i)
   \<and> (contentExists this fs2 j \<longrightarrow>
        (\<exists>fs3. deleteContent this None fs2 j user2 = (Inr (), fs3))
        \<and> (deleteContent this fault fs2 j user2 = (Inr (), fs3') \<longrightarrow> \<not> contentExists this fs3' j))
   \<and> (\<not> contentExists this fs4 l \<longrightarrow>
        deleteContent this fault4 fs4 l user4 = (Inl NotFoundError, fs4))"
proof (intro conjI impI)
  assume c: "createContent this faults rnd fs metadata content user idopt = (Inr i, fs1)"
  from createContent_cases [OF c] obtain cid where
    w: "createContentWith this faults fs metadata content cid = (Inr i, fs1)"
    by auto
  have "\<not> (\<exists>fs0 cause. rollback this faults fs0 cid cause = (Inr i, fs1))"
    by (auto simp: rollback_def split: sum.splits)
  then have "i = cid \<and> kind fs1 (idDir this cid) = Some Dir"
    using createContentWith_cases [OF w] by auto
  then show "contentExists this fs1 i"
    by (simp add: contentExists_def pathExists_def path_join_id)
next
  assume "contentExists this fs2 j"
  then show "\<exists>fs3. deleteContent this None fs2 j user2 = (Inr (), fs3)"
    by (simp add: deleteContent_def contentExists_def remove_def)
next
  assume "contentExists this fs2 j"
    and d: "deleteContent this fault fs2 j user2 = (Inr (), fs3')"
  then have rm: "remove fault fs2 (path_join [contentPath this, toString j]) = Inr fs3'"
    by (auto simp: deleteContent_def contentExists_def split: sum.splits if_splits)
  have "kind fs3' (idDir this j) = None"
    using remove_kind [OF rm, of "idDir this j"] by (simp add: path_join_id)
  then show "\<not> contentExists this fs3' j"
    by (simp add: contentExists_def pathExists_def path_join_id)
next
  assume "\<not> contentExists this fs4 l"
  then show "deleteContent this fault4 fs4 l user4 = (Inl NotFoundError, fs4)"
    by (simp add: deleteContent_def contentExists_def)
qed

theorem contentExists_create_delete_witness:
  "createContent store noFaults (constRandom 0) [] ''[1]'' ''[2]'' () (Some 42) = (Inr 42, fsCreated)
   \<and> contentExists store fsCreated 42
   \<and> deleteContent store None fsCreated 42 (Some ()) = (Inr (), [([''data''], Dir)])
   \<and> \<not> contentExists store [([''data''], Dir)] 42
   \<and> \<not> contentExists store [] 42
   \<and> deleteContent store None [] 42 (Some ()) = (Inl NotFoundError, [])"
proof -
  have d: "deleteContent store None fsCreated 42 (Some ()) = (Inr (), [([''data''], Dir)])"
    unfolding fsCreated_eq by (simp add: eval_simps)
  have n: "\<not> contentExists store [] 42"
    by (simp add: eval_simps)
  show ?thesis
    using create_42 d n
      contentExists_create_delete [of store noFaults "constRandom 0" "[]" "''[1]''" "''[2]''" "()"
        "Some 42" 42 fsCreated fsCreated 42 "Some ()" None "[([''data''], Dir)]" "[]" 42 None "Some ()"]
    by simp
qed

text \<open>
  Claim C2, as the code has it. When \<^verbatim>\<open>createContent\<close> returns an id, the
  subdirectory of that id and its file area are directories, and the metadata document
  and the content document hold the two documents. When it fails and the removal in the
  rollback does not fault, either no id could be generated and nothing was touched, or
  the error is the creation error and the subdirectory of the id does not exist.
\<close>

theorem createContent_all_or_nothing:
  assumes "createContent this faults rnd fs metadata content user idopt = (r, fs')"
  shows "case r of
      Inr cid \<Rightarrow>
        contentExists this fs' cid
        \<and> kind fs' (segs (path_join [contentPath this, toString cid])) = Some Dir
        \<and> kind fs' (segs (path_join [contentPath this, toString cid, ''content''])) = Some Dir
        \<and> createReadStream fs' (path_join [contentPath this, toString cid, ''h5p.json''])
             = Inr (metadata @ [CHR 0x0A])
        \<and> createReadStream fs' (path_join [contentPath this, toString cid, ''content'', ''content.json''])
             = Inr (content @ [CHR 0x0A])
    | Inl e \<Rightarrow>
        removeFault faults = None \<longrightarrow>
          (idopt = None \<and> e = IdExhaustionError \<and> fs' = fs)
          \<or> (\<exists>cid cause.
                (idopt = Some cid \<or> idopt = None \<and> fst (createContentId this fs rnd) = Inr cid)
                \<and> e = ContentCreationError cause \<and> \<not> contentExists this fs' cid)"
proof (cases r)
  case (Inr i)
  from createContent_cases [OF assms] Inr obtain cid where
    w: "createContentWith this faults fs metadata content cid = (Inr i, fs')"
    by auto
  have "\<not> (\<exists>fs0 cause. rollback this faults fs0 cid cause = (Inr i, fs'))"
    by (auto simp: rollback_def split: sum.splits)
  then have "i = cid
      \<and> kind fs' (idDir this cid) = Some Dir
      \<and> kind fs' (idDir this cid @ [''content'']) = Some Dir
      \<and> kind fs' (idDir this cid @ [''h5p.json'']) = Some (File (metadata @ [CHR 0x0A]))
      \<and> kind fs' (idDir this cid @ [''content'', ''content.json''])
           = Some (File (content @ [CHR 0x0A]))"
    using createContentWith_cases [OF w] by auto
  then show ?thesis
    using Inr
    by (simp add: contentExists_def pathExists_def createReadStream_def path_join_id
                  path_join_content path_join_h5p path_join_content_json)
next
  case (Inl e)
  show ?thesis
  proof (cases "idopt = None \<and> e = IdExhaustionError \<and> fs' = fs")
    case True
    then show ?thesis using Inl by simp
  next
    case False
    then obtain cid where
      i: "idopt = Some cid \<or> idopt = None \<and> fst (createContentId this fs rnd) = Inr cid" and
      w: "createContentWith this faults fs metadata content cid = (Inl e, fs')"
      using createContent_cases [OF assms] Inl by auto
    then obtain fs0 cause where rb: "rollback this faults fs0 cid cause = (Inl e, fs')"
      using createContentWith_cases [OF w] by auto
    show ?thesis
      using rollback_result [OF rb] i Inl by auto
  qed
qed

theorem createContent_all_or_nothing_witness:
  "createContent store (noFaults\<lparr>writeContentFault := Some ENOSPC\<rparr>) (constRandom 0) []
       ''[1]'' ''[2]'' () (Some 42)
     = (Inl (ContentCreationError ENOSPC), [([''data''], Dir)])
   \<and> removeFault (noFaults\<lparr>writeContentFault := Some ENOSPC\<rparr>) = None
   \<and> \<not> contentExists store [([''data''], Dir)] 42"
proof -
  have ev: "createContent store (noFaults\<lparr>writeContentFault := Some ENOSPC\<rparr>) (constRandom 0) []
       ''[1]'' ''[2]'' () (Some 42)
     = (Inl (ContentCreationError ENOSPC), [([''data''], Dir)])"
    by (simp add: eval_simps)
  show ?thesis
    using ev createContent_all_or_nothing [OF ev]
    by (simp add: noFaults_def)
qed

theorem createContent_rollback_counterexample:
  "createContent store (noFaults\<lparr>writeMetadataFault := Some ENOSPC, removeFault := Some EACCES\<rparr>)
       (constRandom 0) [] ''[1]'' ''[2]'' () (Some 42)
     = (Inl (StorageIOError EACCES),
        [([''data''], Dir), ([''data'', ''42''], Dir), ([''data'', ''42'', ''content''], Dir)])
   \<and> contentExists store
        [([''data''], Dir), ([''data'', ''42''], Dir), ([''data'', ''42'', ''content''], Dir)] 42"
  by (simp add: eval_simps)

text \<open>
  Claim C7, as the code has it. When a step of the create sequence fails and the
  removal in the rollback fails too, the error that reaches the caller is the error of
  the removal; the creation error reaches the caller when the removal succeeds. (A call
  without an id can also fail before the sequence starts, when no id could be
  generated.)
\<close>

theorem createContent_cleanup_error:
  "(removeFault faults = Some e' \<longrightarrow>
      createContent this faults rnd fs metadata content user idopt = (Inl e, fs') \<longrightarrow>
      e = StorageIOError e' \<or> idopt = None \<and> e = IdExhaustionError)
   \<and> (removeFault faults2 = None \<longrightarrow>
      createContent this faults2 rnd fs metadata content user idopt = (Inl e2, fs2) \<longrightarrow>
      (\<exists>cause. e2 = ContentCreationError cause) \<or> idopt = None \<and> e2 = IdExhaustionError)"
proof -
  have gen: "\<And>fl x fsx. createContent this fl rnd fs metadata content user idopt = (Inl x, fsx) \<Longrightarrow>
      (idopt = None \<and> x = IdExhaustionError)
      \<or> (\<exists>fs0 cid cause. rollback this fl fs0 cid cause = (Inl x, fsx))"
  proof -
    fix fl x fsx
    assume a: "createContent this fl rnd fs metadata content user idopt = (Inl x, fsx)"
    show "(idopt = None \<and> x = IdExhaustionError)
      \<or> (\<exists>fs0 cid cause. rollback this fl fs0 cid cause = (Inl x, fsx))"
    proof (cases "idopt = None \<and> x = IdExhaustionError")
      case True
      then show ?thesis by simp
    next
      case False
      then obtain cid where
        w: "createContentWith this fl fs metadata content cid = (Inl x, fsx)"
        using createContent_cases [OF a] by auto
      then show ?thesis using createContentWith_cases [OF w] by auto
    qed
  qed
  show ?thesis
  proof (intro conjI impI)
    assume "removeFault faults = Some e'"
      and "createContent this faults rnd fs metadata content user idopt = (Inl e, fs')"
    then show "e = StorageIOError e' \<or> idopt = None \<and> e = IdExhaustionError"
      using gen [of faults e fs'] rollback_result by fastforce
  next
    assume "removeFault faults2 = None"
      and "createContent this faults2 rnd fs metadata content user idopt = (Inl e2, fs2)"
    then show "(\<exists>cause. e2 = ContentCreationError cause) \<or> idopt = None \<and> e2 = IdExhaustionError"
      using gen [of faults2 e2 fs2] rollback_result by fastforce
  qed
qed

theorem createContent_cleanup_error_witness:
  "removeFault (noFaults\<lparr>mkContentDirFault := Some EIO, removeFault := Some EACCES\<rparr>) = Some EACCES
   \<and> createContent store (noFaults\<lparr>mkContentDirFault := Some EIO, removeFault := Some EACCES\<rparr>)
        (constRandom 0) [] ''[1]'' ''[2]'' () (Some 42)
      = (Inl (StorageIOError EACCES), [([''data''], Dir), ([''data'', ''42''], Dir)])
   \<and> removeFault (noFaults\<lparr>mkContentDirFault := Some EIO\<rparr>) = None
   \<and> createContent store (noFaults\<lparr>mkContentDirFault := Some EIO\<rparr>)
        (constRandom 0) [] ''[1]'' ''[2]'' () (Some 42)
      = (Inl (ContentCreationError EIO), [([''data''], Dir)])"
proof -
  have a: "createContent store (noFaults\<lparr>mkContentDirFault := Some EIO, removeFault := Some EACCES\<rparr>)
        (constRandom 0) [] ''[1]'' ''[2]'' () (Some 42)
      = (Inl (StorageIOError EACCES), [([''data''], Dir), ([''data'', ''42''], Dir)])"
    by (simp add: eval_simps)
  have b: "createContent store (noFaults\<lparr>mkContentDirFault := Some EIO\<rparr>)
        (constRandom 0) [] ''[1]'' ''[2]'' () (Some 42)
      = (Inl (ContentCreationError EIO), [([''data''], Dir)])"
    by (simp add: eval_simps)
  show ?thesis
    using a b
      createContent_cleanup_error [of "noFaults\<lparr>mkContentDirFault := Some EIO, removeFault := Some EACCES\<rparr>"
        EACCES store "constRandom 0" "[]" "''[1]''" "''[2]''" "()" "Some 42"
        "StorageIOError EACCES" "[([''data''], Dir), ([''data'', ''42''], Dir)]"
        "noFaults\<lparr>mkContentDirFault := Some EIO\<rparr>" "ContentCreationError EIO" "[([''data''], Dir)]"]
    by (simp add: noFaults_def)
qed

theorem createContent_cleanup_error_counterexample:
  "fst (createContent store (noFaults\<lparr>writeContentFault := Some EIO, removeFault := Some EACCES\<rparr>)
          (constRandom 0) [] ''[1]'' ''[2]'' () (Some 42))
     = Inl (StorageIOError EACCES)
   \<and> fst (createContent store (noFaults\<lparr>writeContentFault := Some EIO, removeFault := Some EACCES\<rparr>)
          (constRandom 0) [] ''[1]'' ''[2]'' () (Some 42))
     \<noteq> Inl (ContentCreationError EIO)"
  by (simp add: eval_simps)

subsection \<open>The scenario: listing and streaming\<close>

lemma join_store_42:
  "path_join [contentPath store, toString 42, ''content'', f]
     = normalize (''/data/42/content'' @ (if f = [] then [] else CHR ''/'' # f))"
  by (simp add: path_join_def store_def toString_42)

lemma fsAttached_eq:
  "fsAttached =
     [([''data''], Dir), ([''data'', ''42''], Dir), ([''data'', ''42'', ''content''], Dir),
      ([''data'', ''42'', ''h5p.json''], File ''[1]\<newline>''),
      ([''data'', ''42'', ''content'', ''content.json''], File ''[2]\<newline>''),
      ([''data'', ''42'', ''content'', ''images''], Dir),
      ([''data'', ''42'', ''content'', ''images'', ''a.png''], File ''0123456789'')]"
  unfolding fsAttached_def fsCreated_eq
  by (simp add: addContentFile_def path_join_id idDir_store_42 join_store_42 normalize_def
        pathExists_def kind_def ensureDir_def path_dirname_def pipeToFile_def writeFile_def
        noAddFaults_def)

lemma fsReadme_eq:
  "fsReadme =
     [([''data''], Dir), ([''data'', ''42''], Dir), ([''data'', ''42'', ''content''], Dir),
      ([''data'', ''42'', ''h5p.json''], File ''[1]\<newline>''),
      ([''data'', ''42'', ''content'', ''content.json''], File ''[2]\<newline>''),
      ([''data'', ''42'', ''content'', ''README''], File ''0123456789'')]"
  unfolding fsReadme_def fsCreated_eq
  by (simp add: addContentFile_def path_join_id idDir_store_42 join_store_42 normalize_def
        pathExists_def kind_def ensureDir_def path_dirname_def pipeToFile_def writeFile_def
        noAddFaults_def)

lemma fsTwo_eq:
  "fsTwo =
     [([''data''], Dir), ([''data'', ''42''], Dir), ([''data'', ''42'', ''content''], Dir),
      ([''data'', ''42'', ''h5p.json''], File ''[1]\<newline>''),
      ([''data'', ''42'', ''content'', ''content.json''], File ''[2]\<newline>''),
      ([''data'', ''43''], Dir), ([''data'', ''43'', ''content''], Dir),
      ([''data'', ''43'', ''h5p.json''], File ''[3]\<newline>''),
      ([''data'', ''43'', ''content'', ''content.json''], File ''[4]\<newline>'')]"
  unfolding fsTwo_def fsCreated_eq by (simp add: eval_simps)

text \<open>
  Claim C5, at an input where the code departs from it. After content 42 is created and
  a ten-byte file is attached under the name \<^verbatim>\<open>README\<close>, the file is a leaf file of
  the file area (it can be streamed back), and \<^verbatim>\<open>getContentFiles\<close> returns the empty
  list: the pattern \<^verbatim>\<open>*.*\<close> asks for a dot in the name.
\<close>

theorem getContentFiles_misses_README:
  "fst (addContentFile store noAddFaults fsCreated 42 ''README'' ''0123456789'' ()) = Inr ()
   \<and> getContentFileStream store fsReadme 42 ''content/README'' () = Inr ''0123456789''
   \<and> getContentFiles store fsReadme 42 () = []"
proof -
  have a: "fst (addContentFile store noAddFaults fsCreated 42 ''README'' ''0123456789'' ()) = Inr ()"
    unfolding fsCreated_eq
    by (simp add: addContentFile_def path_join_id idDir_store_42 join_store_42 normalize_def
        pathExists_def kind_def ensureDir_def path_dirname_def pipeToFile_def writeFile_def
        noAddFaults_def)
  have b: "getContentFileStream store fsReadme 42 ''content/README'' () = Inr ''0123456789''"
    unfolding fsReadme_eq
    by (simp add: getContentFileStream_def path_join_def normalize_def store_def toString_42
          createReadStream_def kind_def)
  have c: "getContentFiles store fsReadme 42 () = []"
    unfolding fsReadme_eq
    by (simp add: getContentFiles_def path_join_content idDir_store_42 globContent_def
          matchStarDotStar_def matchGlobstar_def isFile_def)
  show ?thesis using a b c by simp
qed

lemma listing_attached: "getContentFiles store fsAttached 42 user = [''images/a.png'']"
  unfolding fsAttached_eq
  by (simp add: getContentFiles_def path_join_content idDir_store_42 globContent_def
        matchStarDotStar_def matchGlobstar_def isFile_def path_relative_def)

lemma path_join_content_prefix:
  "p \<noteq> [] \<Longrightarrow>
     path_join [dir, i, ''content/'' @ p] = path_join [dir, i, ''content'', p]"
  by (simp add: path_join_def)

lemma pipeToFile_done:
  "pipeToFile fault fs p d = (Inr u, fs') \<Longrightarrow> writeFile None fs p d = Inr fs'"
  by (auto simp: pipeToFile_def split: option.splits streamFault.splits sum.splits)

lemma pipeToFile_changes:
  assumes "pipeToFile fault fs p d = (r, fs')" and "kind fs' q \<noteq> kind fs q"
  shows "q = segs p"
proof -
  have "fs' = fs \<or> (\<exists>x. writeFile None fs p x = Inr fs')"
    using assms(1)
    by (auto simp: pipeToFile_def split: option.splits streamFault.splits sum.splits)
  then show ?thesis
    using assms(2) writeFile_kind [of None fs p _ fs' q] by (auto split: if_splits)
qed

lemma addContentFile_written:
  assumes "addContentFile this faults fs cid p d user = (Inr (), fs')"
  shows "createReadStream fs' (path_join [contentPath this, toString cid, ''content'', p]) = Inr d"
proof -
  let ?full = "path_join [contentPath this, toString cid, ''content'', p]"
  obtain fs1 where "pipeToFile (pipeFault faults) fs1 ?full d = (Inr (), fs')"
    using assms
    by (auto simp: addContentFile_def Let_def split: if_splits sum.splits prod.splits)
  then have w: "writeFile None fs1 ?full d = Inr fs'"
    by (rule pipeToFile_done)
  have "kind fs' (segs ?full) = Some (File d)" and "\<not> trailing ?full"
    using writeFile_kind [OF w, of "segs ?full"] writeFile_ok [OF w]
    by simp_all
  then show ?thesis by (simp add: createReadStream_def)
qed

text \<open>
  Claim C4, as the code has it. \<^verbatim>\<open>getContentFileStream\<close> joins the file name to the
  subdirectory of the id, not to its file area, so a file attached as \<open>p\<close> is streamed
  back under \<^verbatim>\<open>content/\<close> followed by \<open>p\<close>: for every non-empty \<open>p\<close> and data \<open>d\<close>,
  after \<^verbatim>\<open>addContentFile\<close> has attached \<open>d\<close> as \<open>p\<close>, streaming \<^verbatim>\<open>content/\<close>\<open>p\<close> from
  the same id delivers \<open>d\<close>. In the scenario (content 42, ten bytes attached as
  \<^verbatim>\<open>images/a.png\<close>) \<^verbatim>\<open>getContentFiles\<close> returns exactly \<^verbatim>\<open>images/a.png\<close>.
\<close>

theorem attach_then_stream:
  "(addContentFile this faults fs cid p d user = (Inr (), fs') \<longrightarrow> p \<noteq> [] \<longrightarrow>
      getContentFileStream this fs' cid (''content/'' @ p) user' = Inr d)
   \<and> getContentFiles store fsAttached 42 user'' = [''images/a.png'']"
proof (intro conjI impI)
  assume a: "addContentFile this faults fs cid p d user = (Inr (), fs')" and ne: "p \<noteq> []"
  show "getContentFileStream this fs' cid (''content/'' @ p) user' = Inr d"
    using addContentFile_written [OF a] path_join_content_prefix [OF ne]
    by (simp add: getContentFileStream_def)
next
  show "getContentFiles store fsAttached 42 user'' = [''images/a.png'']"
    by (rule listing_attached)
qed

lemma attach_a_png:
  "addContentFile store noAddFaults fsCreated 42 ''images/a.png'' ''0123456789'' ()
     = (Inr (), fsAttached)"
  unfolding fsAttached_eq fsCreated_eq
  by (simp add: addContentFile_def path_join_id idDir_store_42 join_store_42 normalize_def
        pathExists_def kind_def ensureDir_def path_dirname_def pipeToFile_def writeFile_def
        noAddFaults_def)

theorem attach_then_stream_witness:
  "addContentFile store noAddFaults fsCreated 42 ''images/a.png'' ''0123456789'' ()
     = (Inr (), fsAttached)
   \<and> ''images/a.png'' \<noteq> []
   \<and> getContentFileStream store fsAttached 42 ''content/images/a.png'' () = Inr ''0123456789''
   \<and> getContentFiles store fsAttached 42 () = [''images/a.png'']"
  using attach_a_png
    attach_then_stream [of store noAddFaults fsCreated 42 "''images/a.png''" "''0123456789''" "()"
      fsAttached "()" "()"]
  by simp

theorem stream_without_content_prefix_counterexample:
  "addContentFile store noAddFaults fsCreated 42 ''images/a.png'' ''0123456789'' ()
     = (Inr (), fsAttached)
   \<and> getContentFileStream store fsAttached 42 ''images/a.png'' () = Inl ENOENT"
proof -
  have "getContentFileStream store fsAttached 42 ''images/a.png'' () = Inl ENOENT"
    unfolding fsAttached_eq
    by (simp add: getContentFileStream_def path_join_def normalize_def store_def toString_42
          createReadStream_def kind_def)
  then show ?thesis using attach_a_png by simp
qed

subsection \<open>Where paths end up\<close>

lemma normalizeString_no_dotdot:
  "''..'' \<notin> set ss \<Longrightarrow>
     normalizeString acc ss = rev acc @ filter (\<lambda>s. s \<noteq> [] \<and> s \<noteq> ''.'') ss"
  by (induction ss arbitrary: acc) auto

lemma prefix_beyond:
  assumes "prefix q (a @ x # r)" and "\<not> prefix q a"
  shows "prefix (a @ [x]) q"
proof -
  obtain us where q: "q = a @ us" and u: "prefix us (x # r)"
    using assms by (auto simp: prefix_append)
  have "us \<noteq> []" using q assms(2) by auto
  then obtain us' where "us = x # us'"
    using u by (cases us) auto
  then show ?thesis using q by simp
qed

lemma exists_above:
  assumes "wellFormed fs" and "kind fs a = Some n" and "prefix q a"
  shows "kind fs q \<noteq> None"
proof -
  obtain t where a: "a = q @ t" using assms(3) by (auto simp: prefix_def)
  show ?thesis
  proof (cases "t = []")
    case True
    then show ?thesis using a assms(2) by simp
  next
    case False
    then show ?thesis
      using kind_ancestor [OF assms(1), of q t n] a assms(2) by simp
  qed
qed

lemma addContentFile_changes:
  assumes wf: "wellFormed fs"
    and nd: "''..'' \<notin> set (splitOn (CHR ''/'') filename)"
    and add: "addContentFile this faults fs cid filename stream user = (r, fs')"
    and ch: "kind fs' q \<noteq> kind fs q"
  shows "prefix (idDir this cid @ [''content'']) q"
proof -
  let ?full = "path_join [contentPath this, toString cid, ''content'', filename]"
  let ?C = "idDir this cid @ [''content'']"
  let ?F = "filter (\<lambda>s. s \<noteq> [] \<and> s \<noteq> ''.'') (splitOn (CHR ''/'') filename)"
  have full: "segs ?full = ?C @ ?F"
    using normalizeString_no_dotdot [OF nd] by (simp add: segs_join_content_filename)
  have ex: "pathExists fs (path_join [contentPath this, toString cid])"
    using add ch by (auto simp: addContentFile_def split: if_splits)
  then obtain n where idk: "kind fs (idDir this cid) = Some n"
    by (auto simp: pathExists_def path_join_id split: option.splits)
  obtain fs1 where
    e: "ensureDir (ensureDirFault faults) fs (path_dirname ?full) = Inr fs1"
    using add ch ex by (auto simp: addContentFile_def Let_def split: sum.splits)
  then have m: "mkdirs fs [] (butlast (segs ?full)) = Inr fs1"
    by (auto simp: ensureDir_def path_dirname_def split: option.splits)
  have step1: "kind fs1 q \<noteq> kind fs q \<Longrightarrow> prefix ?C q"
  proof -
    assume d: "kind fs1 q \<noteq> kind fs q"
    from mkdirs_changes [OF m d] have none: "kind fs q = None"
      and pre: "prefix q (butlast (segs ?full))" by simp_all
    have f2: "segs ?full = idDir this cid @ ''content'' # ?F"
      using full by simp
    have "prefix (butlast (segs ?full)) (segs ?full)"
      by (rule prefixeq_butlast)
    with pre have "prefix q (segs ?full)"
      by (rule prefix_order.trans)
    then have "prefix q (idDir this cid @ ''content'' # ?F)"
      unfolding f2 .
    moreover have "\<not> prefix q (idDir this cid)"
      using exists_above [OF wf idk] none by blast
    ultimately show "prefix ?C q" by (rule prefix_beyond)
  qed
  obtain r2 fs2 where pp: "pipeToFile (pipeFault faults) fs1 ?full stream = (r2, fs2)"
    by (cases "pipeToFile (pipeFault faults) fs1 ?full stream")
  then have eq: "fs' = fs2"
    using add ex e by (auto simp: addContentFile_def Let_def split: sum.splits)
  show ?thesis
  proof (cases "kind fs2 q = kind fs1 q")
    case True
    then show ?thesis using eq ch step1 by simp
  next
    case False
    then have "q = segs ?full" using pipeToFile_changes [OF pp] by blast
    then show ?thesis using full by simp
  qed
qed

text \<open>
  Claim C1, as the code has it. Neither method checks where the joined path ends up.
  For a file name none of whose names is \<^verbatim>\<open>..\<close>, the path
  \<^verbatim>\<open>getContentFileStream\<close> opens lies in the subdirectory of the id, so a stream it
  delivers is that of a file in there; and in a file system that is a tree
  \<^verbatim>\<open>addContentFile\<close> changes entries in the file area of the id only, whether it
  succeeds or fails.
\<close>

theorem no_traversal_without_dotdot:
  assumes "''..'' \<notin> set (splitOn (CHR ''/'') filename)"
  shows "prefix (idDir this cid) (segs (path_join [contentPath this, toString cid, filename]))
     \<and> (getContentFileStream this fs cid filename user = Inr d \<longrightarrow>
          kind fs (segs (path_join [contentPath this, toString cid, filename])) = Some (File d))
     \<and> (wellFormed fs2 \<longrightarrow>
          addContentFile this faults fs2 cid filename stream user2 = (r, fs') \<longrightarrow>
          (\<forall>q. kind fs' q \<noteq> kind fs2 q \<longrightarrow> prefix (idDir this cid @ [''content'']) q))"
proof (intro conjI impI allI)
  show "prefix (idDir this cid) (segs (path_join [contentPath this, toString cid, filename]))"
    using normalizeString_no_dotdot [OF assms] by (simp add: segs_join_filename)
next
  assume "getContentFileStream this fs cid filename user = Inr d"
  then show "kind fs (segs (path_join [contentPath this, toString cid, filename])) = Some (File d)"
    by (auto simp: getContentFileStream_def createReadStream_def
             split: option.splits node.splits if_splits)
next
  fix q
  assume w: "wellFormed fs2"
    and a: "addContentFile this faults fs2 cid filename stream user2 = (r, fs')"
    and c: "kind fs' q \<noteq> kind fs2 q"
  show "prefix (idDir this cid @ [''content'']) q"
    using addContentFile_changes [OF w assms a c] .
qed

lemma wellFormed_fsCreated: "wellFormed fsCreated"
  unfolding fsCreated_eq by (simp add: wellFormed_def kind_def)

theorem no_traversal_without_dotdot_witness:
  "''..'' \<notin> set (splitOn (CHR ''/'') ''content/images/a.png'')
   \<and> prefix (idDir store 42) (segs (path_join [contentPath store, toString 42, ''content/images/a.png'']))
   \<and> getContentFileStream store fsAttached 42 ''content/images/a.png'' () = Inr ''0123456789''
   \<and> kind fsAttached (segs (path_join [contentPath store, toString 42, ''content/images/a.png'']))
        = Some (File ''0123456789'')
   \<and> ''..'' \<notin> set (splitOn (CHR ''/'') ''images/a.png'')
   \<and> wellFormed fsCreated
   \<and> addContentFile store noAddFaults fsCreated 42 ''images/a.png'' ''0123456789'' ()
        = (Inr (), fsAttached)
   \<and> kind fsAttached [''data'', ''42'', ''content'', ''images''] \<noteq> kind fsCreated [''data'', ''42'', ''content'', ''images'']
   \<and> prefix (idDir store 42 @ [''content'']) [''data'', ''42'', ''content'', ''images'']"
proof -
  have h1: "''..'' \<notin> set (splitOn (CHR ''/'') ''content/images/a.png'')" by simp
  have h2: "''..'' \<notin> set (splitOn (CHR ''/'') ''images/a.png'')" by simp
  have s: "getContentFileStream store fsAttached 42 ''content/images/a.png'' () = Inr ''0123456789''"
    unfolding fsAttached_eq
    by (simp add: getContentFileStream_def path_join_def normalize_def store_def toString_42
          createReadStream_def kind_def)
  have k: "kind fsAttached [''data'', ''42'', ''content'', ''images'']
             \<noteq> kind fsCreated [''data'', ''42'', ''content'', ''images'']"
    unfolding fsAttached_eq fsCreated_eq by (simp add: kind_def)
  have A: "prefix (idDir store 42)
             (segs (path_join [contentPath store, toString 42, ''content/images/a.png'']))"
    using no_traversal_without_dotdot [OF h1] by (rule conjunct1)
  have B: "kind fsAttached (segs (path_join [contentPath store, toString 42, ''content/images/a.png'']))
             = Some (File ''0123456789'')"
    using no_traversal_without_dotdot [OF h1, THEN conjunct2, THEN conjunct1, THEN mp, OF s] .
  have C: "prefix (idDir store 42 @ [''content'']) [''data'', ''42'', ''content'', ''images'']"
    using no_traversal_without_dotdot [OF h2, THEN conjunct2, THEN conjunct2, THEN mp, THEN mp,
            THEN spec, THEN mp, OF wellFormed_fsCreated attach_a_png k] .
  show ?thesis
    by (intro conjI h1 A s B h2 wellFormed_fsCreated attach_a_png k C)
qed

theorem traversal_counterexample:
  "getContentFileStream store fsTwo 42 ''../43/h5p.json'' () = Inr ''[3]\<newline>''
   \<and> \<not> prefix (idDir store 42) (segs (path_join [contentPath store, toString 42, ''../43/h5p.json'']))
   \<and> kind fsTwo [''data'', ''43'', ''content'', ''b.txt''] = None
   \<and> kind (snd (addContentFile store noAddFaults fsTwo 42 ''../../43/content/b.txt'' ''0123456789'' ()))
        [''data'', ''43'', ''content'', ''b.txt''] = Some (File ''0123456789'')
   \<and> \<not> prefix (idDir store 42) [''data'', ''43'', ''content'', ''b.txt'']"
proof -
  have j: "path_join [contentPath store, toString 42, ''../43/h5p.json'']
             = \<lparr>segs = [''data'', ''43'', ''h5p.json''], trailing = False\<rparr>"
    by (simp add: path_join_def normalize_def store_def toString_42)
  have j2: "path_join [contentPath store, toString 42, ''content'', ''../../43/content/b.txt'']
             = \<lparr>segs = [''data'', ''43'', ''content'', ''b.txt''], trailing = False\<rparr>"
    by (simp add: path_join_def normalize_def store_def toString_42)
  have a: "getContentFileStream store fsTwo 42 ''../43/h5p.json'' () = Inr ''[3]\<newline>''"
    unfolding fsTwo_eq by (simp add: getContentFileStream_def j createReadStream_def kind_def)
  have b: "\<not> prefix (idDir store 42) (segs (path_join [contentPath store, toString 42, ''../43/h5p.json'']))"
    by (simp add: j idDir_store_42)
  have c: "kind fsTwo [''data'', ''43'', ''content'', ''b.txt''] = None"
    unfolding fsTwo_eq by (simp add: kind_def)
  have d: "kind (snd (addContentFile store noAddFaults fsTwo 42 ''../../43/content/b.txt'' ''0123456789'' ()))
        [''data'', ''43'', ''content'', ''b.txt''] = Some (File ''0123456789'')"
    unfolding fsTwo_eq
    by (simp add: addContentFile_def path_join_id idDir_store_42 j2
        pathExists_def kind_def ensureDir_def path_dirname_def pipeToFile_def writeFile_def
        noAddFaults_def)
  show ?thesis using a b c d by (simp add: idDir_store_42)
qed

subsection \<open>Creating content under an id that exists\<close>

lemma mkdirs_append:
  "mkdirs fs pre a = Inr fs1 \<Longrightarrow> mkdirs fs pre (a @ b) = mkdirs fs1 (pre @ a) b"
proof (induction fs pre a rule: mkdirs.induct)
  case (2 fs pre s ss)
  then show ?case
    by (cases "kind fs (pre @ [s])") (auto split: node.splits)
qed simp

lemma writeJSON_succeeds:
  "segs p \<noteq> [] \<Longrightarrow> \<not> trailing p \<Longrightarrow> kind fs (butlast (segs p)) = Some Dir
     \<Longrightarrow> kind fs (segs p) \<noteq> Some Dir \<Longrightarrow> \<exists>fs'. writeJSON None fs p obj = Inr fs'"
  unfolding writeJSON_def by (rule writeFile_succeeds)

text \<open>
  Claim C10, as the code has it. \<open>idDir this cid\<close> is the path
  \<^verbatim>\<open>path.join(contentPath, id.toString())\<close> (lemma \<open>path_join_id\<close>). Let the file
  system be a tree in which the subdirectory of the id is a directory, its
  \<^verbatim>\<open>content\<close> entry is not a file, and neither document is a directory, and let none
  of the four calls of the create sequence fault. Then \<^verbatim>\<open>createContent\<close> with this id
  returns the id; afterwards the two documents hold the new metadata and content, the
  file area is a directory, and every other entry of the file system, each attached
  file among them, is what it was. Without these conditions the call can fail, and
  then the rollback removes the subdirectory with all that was attached.
\<close>

theorem createContent_existing_id:
  assumes "wellFormed fs"
    and "kind fs (idDir this cid) = Some Dir"
    and "kind fs (idDir this cid @ [''content'']) = None
         \<or> kind fs (idDir this cid @ [''content'']) = Some Dir"
    and "kind fs (idDir this cid @ [''h5p.json'']) \<noteq> Some Dir"
    and "kind fs (idDir this cid @ [''content'', ''content.json'']) \<noteq> Some Dir"
    and "mkIdDirFault faults = None" and "mkContentDirFault faults = None"
    and "writeMetadataFault faults = None" and "writeContentFault faults = None"
  shows "\<exists>fs'. createContent this faults rnd fs metadata content user (Some cid) = (Inr cid, fs')
     \<and> kind fs' (idDir this cid @ [''h5p.json'']) = Some (File (metadata @ [CHR 0x0A]))
     \<and> kind fs' (idDir this cid @ [''content'', ''content.json''])
          = Some (File (content @ [CHR 0x0A]))
     \<and> kind fs' (idDir this cid @ [''content'']) = Some Dir
     \<and> (\<forall>q. q \<noteq> idDir this cid @ [''h5p.json'']
             \<longrightarrow> q \<noteq> idDir this cid @ [''content'', ''content.json'']
             \<longrightarrow> q \<noteq> idDir this cid @ [''content'']
             \<longrightarrow> kind fs' q = kind fs q)"
proof -
  let ?I = "idDir this cid"
  let ?C = "idDir this cid @ [''content'']"
  let ?H = "idDir this cid @ [''h5p.json'']"
  let ?J = "idDir this cid @ [''content'', ''content.json'']"
  have m1: "mkdirs fs [] ?I = Inr fs"
    using mkdirs_existing [OF assms(1), of "[]" ?I] assms(2) by simp
  then have s1: "ensureDir (mkIdDirFault faults) fs (path_join [contentPath this, toString cid]) = Inr fs"
    using assms(6) by (simp add: ensureDir_def path_join_id)
  have m2: "mkdirs fs [] ?C = mkdirs fs ?I [''content'']"
    using mkdirs_append [OF m1, of "[''content'']"] by simp
  obtain fs2 where s2: "mkdirs fs ?I [''content''] = Inr fs2"
    and k2: "\<And>q. kind fs2 q = (if q = ?C then Some Dir else kind fs q)"
  proof (cases "kind fs ?C")
    case None
    then have "mkdirs fs ?I [''content''] = Inr (fs @ [(?C, Dir)])" by simp
    moreover have "\<And>q. kind (fs @ [(?C, Dir)]) q = (if q = ?C then Some Dir else kind fs q)"
      using None by (simp add: kind_append_entry)
    ultimately show ?thesis using that by blast
  next
    case (Some n)
    then have d: "kind fs ?C = Some Dir" using assms(3) by simp
    then have "mkdirs fs ?I [''content''] = Inr fs" by simp
    moreover have "\<And>q. kind fs q = (if q = ?C then Some Dir else kind fs q)"
      using d by simp
    ultimately show ?thesis using that by blast
  qed
  have e2: "ensureDir (mkContentDirFault faults) fs
              (path_join [contentPath this, toString cid, ''content'']) = Inr fs2"
    using s2 m2 assms(7) by (simp add: ensureDir_def path_join_content)
  have "\<exists>fs3. writeJSON None fs2 (path_join [contentPath this, toString cid, ''h5p.json''])
                 metadata = Inr fs3"
    using assms(2) assms(4) by (intro writeJSON_succeeds) (simp_all add: path_join_h5p k2)
  then obtain fs3 where
    s3: "writeJSON (writeMetadataFault faults) fs2
           (path_join [contentPath this, toString cid, ''h5p.json'']) metadata = Inr fs3"
    using assms(8) by auto
  have k3: "\<And>q. kind fs3 q = (if q = ?H then Some (File (metadata @ [CHR 0x0A])) else kind fs2 q)"
    using writeJSON_kind [OF s3] by (simp add: path_join_h5p)
  have "\<exists>fs4. writeJSON None fs3
                 (path_join [contentPath this, toString cid, ''content'', ''content.json''])
                 content = Inr fs4"
    using assms(5)
    by (intro writeJSON_succeeds) (simp_all add: path_join_content_json k3 k2 butlast_append)
  then obtain fs4 where
    s4: "writeJSON (writeContentFault faults) fs3
           (path_join [contentPath this, toString cid, ''content'', ''content.json''])
           content = Inr fs4"
    using assms(9) by auto
  have k4: "\<And>q. kind fs4 q = (if q = ?J then Some (File (content @ [CHR 0x0A])) else kind fs3 q)"
    using writeJSON_kind [OF s4] by (simp add: path_join_content_json)
  have res: "createContent this faults rnd fs metadata content user (Some cid) = (Inr cid, fs4)"
    using s1 e2 s3 s4 by (simp add: createContent_def createContentWith_def)
  have "kind fs4 ?H = Some (File (metadata @ [CHR 0x0A]))"
    and "kind fs4 ?J = Some (File (content @ [CHR 0x0A]))"
    and "kind fs4 ?C = Some Dir"
    and "\<forall>q. q \<noteq> ?H \<longrightarrow> q \<noteq> ?J \<longrightarrow> q \<noteq> ?C \<longrightarrow> kind fs4 q = kind fs q"
    by (simp_all add: k4 k3 k2)
  then show ?thesis using res by blast
qed

lemma wellFormed_fsAttached: "wellFormed fsAttached"
  unfolding fsAttached_eq by (simp add: wellFormed_def kind_def)

theorem createContent_existing_id_witness:
  "wellFormed fsAttached
   \<and> kind fsAttached (idDir store 42) = Some Dir
   \<and> kind fsAttached (idDir store 42 @ [''content'']) = Some Dir
   \<and> kind fsAttached (idDir store 42 @ [''h5p.json'']) \<noteq> Some Dir
   \<and> kind fsAttached (idDir store 42 @ [''content'', ''content.json'']) \<noteq> Some Dir
   \<and> mkIdDirFault noFaults = None \<and> mkContentDirFault noFaults = None
   \<and> writeMetadataFault noFaults = None \<and> writeContentFault noFaults = None
   \<and> fst (createContent store noFaults (constRandom 0) fsAttached ''[5]'' ''[6]'' () (Some 42)) = Inr 42
   \<and> kind (snd (createContent store noFaults (constRandom 0) fsAttached ''[5]'' ''[6]'' () (Some 42)))
        (idDir store 42 @ [''h5p.json'']) = Some (File ''[5]\<newline>'')
   \<and> kind (snd (createContent store noFaults (constRandom 0) fsAttached ''[5]'' ''[6]'' () (Some 42)))
        (idDir store 42 @ [''content'', ''content.json'']) = Some (File ''[6]\<newline>'')
   \<and> kind (snd (createContent store noFaults (constRandom 0) fsAttached ''[5]'' ''[6]'' () (Some 42)))
        [''data'', ''42'', ''content'', ''images'', ''a.png''] = Some (File ''0123456789'')"
proof -
  have a: "kind fsAttached (idDir store 42) = Some Dir"
    unfolding fsAttached_eq by (simp add: idDir_store_42 kind_def)
  have b: "kind fsAttached (idDir store 42 @ [''content'']) = Some Dir"
    unfolding fsAttached_eq by (simp add: idDir_store_42 kind_def)
  have c: "kind fsAttached (idDir store 42 @ [''h5p.json'']) \<noteq> Some Dir"
    unfolding fsAttached_eq by (simp add: idDir_store_42 kind_def)
  have d: "kind fsAttached (idDir store 42 @ [''content'', ''content.json'']) \<noteq> Some Dir"
    unfolding fsAttached_eq by (simp add: idDir_store_42 kind_def)
  have f: "mkIdDirFault noFaults = None" "mkContentDirFault noFaults = None"
    "writeMetadataFault noFaults = None" "writeContentFault noFaults = None"
    by (simp_all add: noFaults_def)
  have old: "kind fsAttached [''data'', ''42'', ''content'', ''images'', ''a.png'']
               = Some (File ''0123456789'')"
    unfolding fsAttached_eq by (simp add: kind_def)
  obtain fs' where
    r: "createContent store noFaults (constRandom 0) fsAttached ''[5]'' ''[6]'' () (Some 42) = (Inr 42, fs')"
    and h: "kind fs' (idDir store 42 @ [''h5p.json'']) = Some (File (''[5]'' @ [CHR 0x0A]))"
    and j: "kind fs' (idDir store 42 @ [''content'', ''content.json'']) = Some (File (''[6]'' @ [CHR 0x0A]))"
    and fr: "\<forall>q. q \<noteq> idDir store 42 @ [''h5p.json'']
             \<longrightarrow> q \<noteq> idDir store 42 @ [''content'', ''content.json'']
             \<longrightarrow> q \<noteq> idDir store 42 @ [''content'']
             \<longrightarrow> kind fs' q = kind fsAttached q"
    using createContent_existing_id [OF wellFormed_fsAttached a disjI2 [OF b] c d f,
            of "constRandom 0" "''[5]''" "''[6]''" "()"]
    by blast
  have keep: "kind fs' [''data'', ''42'', ''content'', ''images'', ''a.png''] = Some (File ''0123456789'')"
    using fr old by (simp add: idDir_store_42)
  show ?thesis
    using wellFormed_fsAttached a b c d f r h j keep by simp
qed

theorem createContent_existing_id_counterexample:
  "kind fsAttached [''data'', ''42'', ''content'', ''images'', ''a.png''] = Some (File ''0123456789'')
   \<and> createContent store (noFaults\<lparr>writeContentFault := Some ENOSPC\<rparr>) (constRandom 0)
        fsAttached ''[5]'' ''[6]'' () (Some 42)
      = (Inl (ContentCreationError ENOSPC), [([''data''], Dir)])
   \<and> kind [([''data''], Dir)] [''data'', ''42'', ''content'', ''images'', ''a.png''] = None
   \<and> createContent store noFaults (constRandom 0)
        [([''data''], Dir), ([''data'', ''42''], Dir), ([''data'', ''42'', ''h5p.json''], Dir),
         ([''data'', ''42'', ''content''], Dir),
         ([''data'', ''42'', ''content'', ''a.png''], File ''0123456789'')]
        ''[5]'' ''[6]'' () (Some 42)
      = (Inl (ContentCreationError EISDIR), [([''data''], Dir)])"
proof -
  have a: "kind fsAttached [''data'', ''42'', ''content'', ''images'', ''a.png'']
             = Some (File ''0123456789'')"
    unfolding fsAttached_eq by (simp add: kind_def)
  have b: "createContent store (noFaults\<lparr>writeContentFault := Some ENOSPC\<rparr>) (constRandom 0)
        fsAttached ''[5]'' ''[6]'' () (Some 42)
      = (Inl (ContentCreationError ENOSPC), [([''data''], Dir)])"
    unfolding fsAttached_eq by (simp add: eval_simps)
  have c: "kind [([''data''], Dir)] [''data'', ''42'', ''content'', ''images'', ''a.png''] = None"
    by (simp add: kind_def)
  have d: "createContent store noFaults (constRandom 0)
        [([''data''], Dir), ([''data'', ''42''], Dir), ([''data'', ''42'', ''h5p.json''], Dir),
         ([''data'', ''42'', ''content''], Dir),
         ([''data'', ''42'', ''content'', ''a.png''], File ''0123456789'')]
        ''[5]'' ''[6]'' () (Some 42)
      = (Inl (ContentCreationError EISDIR), [([''data''], Dir)])"
    by (simp add: eval_simps)
  show ?thesis using a b c d by simp
qed

subsection \<open>What the listing returns\<close>

lemma dropCommon_Nil: "dropCommon [] r = ([], r)"
  by (cases r) simp_all

lemma dropCommon_below: "dropCommon c (c @ r) = ([], r)"
  by (induction c) (simp_all add: dropCommon_Nil)

lemma path_relative_below: "path_relative c (c @ r) = joinWith ''/'' r"
  by (simp add: path_relative_def dropCommon_below)

lemma isFile_iff: "isFile n = (\<exists>d. n = File d)"
  by (cases n) (simp_all add: isFile_def)

text \<open>
  The members of the listing, for a \<^verbatim>\<open>contentPath\<close> that the glob pattern takes
  literally: the paths, relative to the file area, of the files below it whose name
  matches \<^verbatim>\<open>*.*\<close>, reached through directories whose names do not begin with a
  dot, the content document left out.
\<close>

lemma getContentFiles_listing:
  assumes "literalPath (contentPath this)"
  shows "set (getContentFiles this fs cid user) =
     (\<lambda>p. joinWith ''/'' (drop (length (idDir this cid @ [''content''])) p)) `
       {p. \<exists>d. (p, File d) \<in> set fs
             \<and> strict_prefix (idDir this cid @ [''content'']) p
             \<and> matchGlobstar (butlast (drop (length (idDir this cid @ [''content''])) p))
             \<and> matchStarDotStar (last p)
             \<and> p \<noteq> idDir this cid @ [''content'', ''content.json'']}"
proof -
  let ?C = "idDir this cid @ [''content'']"
  have rel: "\<And>p. strict_prefix ?C p \<Longrightarrow> path_relative ?C p = joinWith ''/'' (drop (length ?C) p)"
  proof -
    fix p assume "strict_prefix ?C p"
    then obtain r where "p = ?C @ r" by (auto simp: strict_prefix_def prefix_def)
    then show "path_relative ?C p = joinWith ''/'' (drop (length ?C) p)"
      using path_relative_below [of ?C r] by simp
  qed
  have g: "set (globContent fs ?C) =
       {p. \<exists>d. (p, File d) \<in> set fs \<and> strict_prefix ?C p
             \<and> matchGlobstar (butlast (drop (length ?C) p))
             \<and> matchStarDotStar (last p) \<and> p \<noteq> ?C @ [''content.json'']}"
    by (force simp: globContent_def isFile_iff image_iff)
  have "set (getContentFiles this fs cid user) = path_relative ?C ` set (globContent fs ?C)"
    by (simp add: getContentFiles_def path_join_content)
  also have "\<dots> = (\<lambda>p. joinWith ''/'' (drop (length ?C) p)) ` set (globContent fs ?C)"
    using rel by (intro image_cong refl) (simp add: g)
  finally show ?thesis using g by simp
qed

end
